theory Spec2Isabelle
  imports Main "HOL-Library.Sublist"
begin

section \<open>Data model\<close>

text \<open>
  The script \<^verbatim>\<open>src/data/process_data.py\<close> works on pandas data frames. A frame is
  modelled by its column labels and its rows, in order. Both frames that
  \<^verbatim>\<open>clean_data\<close> concatenates carry the same row index, so the row index is the
  position and is not stored. Every column has a dtype, which it keeps when the frame
  has no row. Text is ASCII text; a numeric cell holds an integer.
\<close>

datatype cell = Str string | Num int | NaN

datatype dtype = Object | Int64 | Float64

record table =
  columns :: "string list"
  dtypes :: "dtype list"
  rows :: "cell list list"

definition wf_table :: "table \<Rightarrow> bool" where
  "wf_table t = list_all (\<lambda>r. length r = length (columns t)) (rows t)"

text \<open>The exceptions that the script lets escape, by Python class.\<close>

datatype value_reason = InvalidLiteral | IncompatibleKeys | LabelNotUnique | TableExists

datatype error =
    FileNotFoundError
  | KeyError
  | ValueError value_reason
  | MergeError
  | AttributeError
  | IndexError
  | OverflowError
  | ZeroDivisionError
  | EngineError

definition bind_err :: "error + 'a \<Rightarrow> ('a \<Rightarrow> error + 'b) \<Rightarrow> error + 'b" where
  "bind_err m f = (case m of Inl e \<Rightarrow> Inl e | Inr x \<Rightarrow> f x)"

text \<open>A Python loop or comprehension over a list: the first element that raises ends it.\<close>

fun traverse :: "('a \<Rightarrow> error + 'b) \<Rightarrow> 'a list \<Rightarrow> error + 'b list" where
  "traverse f [] = Inr []"
| "traverse f (x # xs) =
     (case f x of
        Inl e \<Rightarrow> Inl e
      | Inr y \<Rightarrow> (case traverse f xs of Inl e \<Rightarrow> Inl e | Inr ys \<Rightarrow> Inr (y # ys)))"

section \<open>Python string primitives\<close>

text \<open>\<^verbatim>\<open>s.split(sep)\<close> for a one-character separator: \<open>k\<close> separators give \<open>k + 1\<close> pieces.\<close>

fun split_on :: "char \<Rightarrow> string \<Rightarrow> string list" where
  "split_on sep [] = [[]]"
| "split_on sep (c # cs) =
     (if c = sep then [] # split_on sep cs
      else (case split_on sep cs of
              [] \<Rightarrow> [[c]]
            | w # ws \<Rightarrow> (c # w) # ws))"

text \<open>
  \<^verbatim>\<open>int(s)\<close> on an ASCII string: surrounding white space is stripped, one sign is
  allowed, and the digits may be grouped by single underscores.
\<close>

definition is_space :: "char \<Rightarrow> bool" where
  "is_space c = ((of_char c :: nat) = 32 \<or> (9 \<le> (of_char c :: nat) \<and> (of_char c :: nat) \<le> 13))"

definition is_digit :: "char \<Rightarrow> bool" where
  "is_digit c = (48 \<le> (of_char c :: nat) \<and> (of_char c :: nat) \<le> 57)"

definition digit_val :: "char \<Rightarrow> int" where
  "digit_val c = int (of_char c) - 48"

definition strip :: "string \<Rightarrow> string" where
  "strip s = rev (dropWhile is_space (rev (dropWhile is_space s)))"

fun valid_body :: "bool \<Rightarrow> string \<Rightarrow> bool" where
  "valid_body prev_digit [] = prev_digit"
| "valid_body prev_digit (c # cs) =
     (if is_digit c then valid_body True cs
      else if c = CHR ''_'' \<and> prev_digit then valid_body False cs
      else False)"

definition body_value :: "string \<Rightarrow> int" where
  "body_value s = foldl (\<lambda>a c. 10 * a + digit_val c) 0 (filter is_digit s)"

definition py_int :: "string \<Rightarrow> int option" where
  "py_int s =
     (let t = strip s;
          neg = (case t of c # _ \<Rightarrow> c = CHR ''-'' | [] \<Rightarrow> False);
          body = (case t of c # b \<Rightarrow> if c = CHR ''-'' \<or> c = CHR ''+'' then b else t | [] \<Rightarrow> t)
      in if valid_body False body
         then Some (if neg then - body_value body else body_value body)
         else None)"

text \<open>An element of an object array converted to \<^verbatim>\<open>int64\<close> by \<^verbatim>\<open>astype(int)\<close>.\<close>

definition to_int64 :: "string \<Rightarrow> error + int" where
  "to_int64 s =
     (case py_int s of
        None \<Rightarrow> Inl (ValueError InvalidLiteral)
      | Some i \<Rightarrow> if - (2 ^ 63) \<le> i \<and> i < 2 ^ 63 then Inr i else Inl OverflowError)"

section \<open>Frame primitives\<close>

definition positions :: "string \<Rightarrow> string list \<Rightarrow> nat list" where
  "positions name cs = filter (\<lambda>i. cs ! i = name) [0..<length cs]"

definition is_Str :: "cell \<Rightarrow> bool" where
  "is_Str c = (case c of Str _ \<Rightarrow> True | _ \<Rightarrow> False)"

definition is_Num :: "cell \<Rightarrow> bool" where
  "is_Num c = (case c of Num _ \<Rightarrow> True | _ \<Rightarrow> False)"

text \<open>
  \<^verbatim>\<open>data_df.categories\<close>: attribute access finds no column, or a frame when the label
  is repeated, and then \<^verbatim>\<open>.str\<close> does not exist. On a single column, \<^verbatim>\<open>.str\<close>
  checks the column's dtype, with or without rows: it must be the object dtype, and
  the values, missing ones aside, must not all be numbers.
\<close>

definition categories_str :: "table \<Rightarrow> error + cell list" where
  "categories_str df =
     (case positions ''categories'' (columns df) of
        [i] \<Rightarrow>
          (let col = map (\<lambda>r. r ! i) (rows df)
           in if dtypes df ! i = Object \<and> (list_ex is_Str col \<or> \<not> list_ex is_Num col)
              then Inr col else Inl AttributeError)
      | _ \<Rightarrow> Inl AttributeError)"

text \<open>
  \<^verbatim>\<open>.str.split(';', expand=True)\<close>: one row of pieces per cell, as wide as the longest;
  a cell that is not text gives a row of missing values and a shorter row is padded with
  missing values (\<open>None\<close> here for both).
\<close>

definition pieces :: "cell \<Rightarrow> string option list" where
  "pieces c = (case c of Str s \<Rightarrow> map Some (split_on CHR '';'' s) | _ \<Rightarrow> [None])"

definition expand_width :: "cell list \<Rightarrow> nat" where
  "expand_width col = foldr (\<lambda>c w. max (length (pieces c)) w) col 0"

definition split_expand :: "cell list \<Rightarrow> string option list list" where
  "split_expand col =
     (let w = expand_width col
      in map (\<lambda>c. if is_Str c then pieces c @ replicate (w - length (pieces c)) None
                   else replicate w None) col)"

definition iloc0 :: "'a list \<Rightarrow> error + 'a" where
  "iloc0 xs = (case xs of [] \<Rightarrow> Inl IndexError | x # _ \<Rightarrow> Inr x)"

text \<open>\<^verbatim>\<open>lambda column: column.split('-')[0]\<close> and \<^verbatim>\<open>lambda row: row.split('-')[1]\<close>.\<close>

definition name_of :: "string option \<Rightarrow> error + string" where
  "name_of v =
     (case v of
        None \<Rightarrow> Inl AttributeError
      | Some s \<Rightarrow> (case split_on CHR ''-'' s of [] \<Rightarrow> Inl IndexError | p # _ \<Rightarrow> Inr p))"

definition suffix_of :: "string option \<Rightarrow> error + string" where
  "suffix_of v =
     (case v of
        None \<Rightarrow> Inl AttributeError
      | Some s \<Rightarrow> (case split_on CHR ''-'' s of _ # q # _ \<Rightarrow> Inr q | _ \<Rightarrow> Inl IndexError))"

text \<open>
  An element-wise pass over a frame (\<^verbatim>\<open>DataFrame.map\<close>, \<^verbatim>\<open>astype\<close>) visits it column by
  column, so the exception that escapes is the one of the first failing cell in that
  order; the values keep their places.
\<close>

definition col_major :: "'a list list \<Rightarrow> 'a list" where
  "col_major m =
     (case m of
        [] \<Rightarrow> []
      | r # _ \<Rightarrow> concat (map (\<lambda>j. map (\<lambda>x. x ! j) m) [0..<length r]))"

definition map_cells :: "('a \<Rightarrow> error + 'b) \<Rightarrow> 'a list list \<Rightarrow> error + 'b list list" where
  "map_cells f m =
     (case traverse f (col_major m) of
        Inl e \<Rightarrow> Inl e
      | Inr _ \<Rightarrow> traverse (traverse f) m)"

definition drop_columns :: "string \<Rightarrow> table \<Rightarrow> table" where
  "drop_columns name df =
     (let keep = filter (\<lambda>i. columns df ! i \<noteq> name) [0..<length (columns df)]
      in \<lparr>columns = map (\<lambda>i. columns df ! i) keep,
          dtypes = map (\<lambda>i. dtypes df ! i) keep,
          rows = map (\<lambda>r. map (\<lambda>i. r ! i) keep) (rows df)\<rparr>)"

definition concat_axis1 :: "table \<Rightarrow> table \<Rightarrow> table" where
  "concat_axis1 a b =
     \<lparr>columns = columns a @ columns b, dtypes = dtypes a @ dtypes b,
      rows = map (\<lambda>(r, s). r @ s) (zip (rows a) (rows b))\<rparr>"

text \<open>\<^verbatim>\<open>duplicated()\<close> flags a row that equals an earlier one on all columns.\<close>

fun duplicated_from :: "'a list \<Rightarrow> 'a list \<Rightarrow> bool list" where
  "duplicated_from seen [] = []"
| "duplicated_from seen (r # rs) = (r \<in> set seen) # duplicated_from (r # seen) rs"

definition duplicated :: "'a list \<Rightarrow> bool list" where
  "duplicated rs = duplicated_from [] rs"

definition drop_duplicates :: "'a list \<Rightarrow> 'a list" where
  "drop_duplicates rs = map fst (filter (\<lambda>(r, d). \<not> d) (zip rs (duplicated rs)))"

section \<open>The cleaner\<close>

text \<open>
  Lines 34 to 37 of \<^verbatim>\<open>clean_data\<close>: the expanded frame, as its column labels and its
  integer rows. Nothing of the caller's frame is changed here.
\<close>

definition expand_categories :: "table \<Rightarrow> error + (string list \<times> int list list)" where
  "expand_categories data_df =
     bind_err (categories_str data_df) (\<lambda>col.
       let expanded = split_expand col
       in bind_err (iloc0 expanded) (\<lambda>first_row.
            bind_err (traverse name_of first_row) (\<lambda>names.
              bind_err (map_cells suffix_of expanded) (\<lambda>suffixes.
                bind_err (map_cells to_int64 suffixes) (\<lambda>ints.
                  Inr (names, ints))))))"

text \<open>
  \<^verbatim>\<open>clean_data\<close> returns the caller's frame as the call leaves it (line 39 drops the
  column in place; line 40 rebinds the local name to a new frame, which line 46 then
  filters) together with the exception or the returned frame. The log lines are not
  modelled, except that the percentage of line 44 divides by the row count.
\<close>

definition clean_data :: "table \<Rightarrow> table \<times> (error + table)" where
  "clean_data data_df =
     (case expand_categories data_df of
        Inl e \<Rightarrow> (data_df, Inl e)
      | Inr (names, ints) \<Rightarrow>
          (let caller_df = drop_columns ''categories'' data_df;
               expanded_categories_df =
                 \<lparr>columns = names, dtypes = replicate (length names) Int64,
                  rows = map (map Num) ints\<rparr>;
               new_df = concat_axis1 caller_df expanded_categories_df;
               num_duplicated_messages = length (filter id (duplicated (rows new_df)));
               num_all_messages = length (rows new_df)
           in if num_all_messages = 0 then (caller_df, Inl ZeroDivisionError)
              else (caller_df, Inr (new_df\<lparr>rows := drop_duplicates (rows new_df)\<rparr>))))"

section \<open>The loader\<close>

text \<open>
  A path is the list of its parts, as \<^verbatim>\<open>pathlib\<close> keeps it. The delimited files are
  represented by the frames that \<^verbatim>\<open>read_csv\<close> parses them into; a path with no file
  raises.
\<close>

type_synonym path = "string list"

type_synonym csv_files = "path \<rightharpoonup> table"

definition read_csv :: "csv_files \<Rightarrow> path \<Rightarrow> error + table" where
  "read_csv files p = (case files p of None \<Rightarrow> Inl FileNotFoundError | Some df \<Rightarrow> Inr df)"

text \<open>The join key of \<^verbatim>\<open>merge(on=['id'])\<close> must label exactly one column of each frame.\<close>

definition key_column :: "string \<Rightarrow> table \<Rightarrow> error + nat" where
  "key_column name df =
     (case positions name (columns df) of
        [] \<Rightarrow> Inl KeyError
      | [i] \<Rightarrow> Inr i
      | _ \<Rightarrow> Inl (ValueError LabelNotUnique))"

definition remove_nth :: "nat \<Rightarrow> 'a list \<Rightarrow> 'a list" where
  "remove_nth i xs = take i xs @ drop (Suc i) xs"

text \<open>
  Labels that a suffix has made collide on one side raise; labels already repeated in
  the input do not count.
\<close>

definition suffix_dups :: "string list \<Rightarrow> string list \<Rightarrow> string list" where
  "suffix_dups orig renamed =
     map (\<lambda>k. renamed ! k)
       (filter (\<lambda>k. renamed ! k \<in> set (take k renamed) \<and> orig ! k \<notin> set (take k orig))
          [0..<length renamed])"

text \<open>
  \<^verbatim>\<open>left.merge(right, on=['id'])\<close>: an inner join. The right key is looked up first.
  The columns keep their dtypes, the key column the left one's.
  Text keys cannot be merged with numeric keys unless one side has no row. The right
  frame loses its key column; a label that both sides still share gets \<^verbatim>\<open>_x\<close> on the
  left and \<^verbatim>\<open>_y\<close> on the right. Every left row is paired, in order, with every right
  row of equal key (a missing key equals a missing key).
\<close>

definition merge_on_id :: "table \<Rightarrow> table \<Rightarrow> error + table" where
  "merge_on_id left right =
     bind_err (key_column ''id'' right) (\<lambda>j.
       bind_err (key_column ''id'' left) (\<lambda>i.
         let lk = map (\<lambda>r. r ! i) (rows left);
             rk = map (\<lambda>r. r ! j) (rows right)
         in if lk \<noteq> [] \<and> rk \<noteq> [] \<and> list_ex is_Str lk \<noteq> list_ex is_Str rk
            then Inl (ValueError IncompatibleKeys)
            else
              (let lcols = columns left;
                   rcols = remove_nth j (columns right);
                   llabels = map (\<lambda>c. if c \<in> set rcols then c @ ''_x'' else c) lcols;
                   rlabels = map (\<lambda>c. if c \<in> set lcols then c @ ''_y'' else c) rcols
               in if suffix_dups lcols llabels @ suffix_dups rcols rlabels \<noteq> []
                  then Inl MergeError
                  else Inr \<lparr>columns = llabels @ rlabels,
                            dtypes = dtypes left @ remove_nth j (dtypes right),
                            rows = concat (map (\<lambda>l.
                                     map (\<lambda>r. l @ remove_nth j r)
                                       (filter (\<lambda>r. r ! j = l ! i) (rows right)))
                                     (rows left))\<rparr>)))"

definition load_data :: "csv_files \<Rightarrow> path \<Rightarrow> path \<Rightarrow> error + table" where
  "load_data files messages_filepath categories_filepath =
     bind_err (read_csv files messages_filepath) (\<lambda>messages_df.
       bind_err (read_csv files categories_filepath) (\<lambda>categories_df.
         merge_on_id messages_df categories_df))"

section \<open>The persister\<close>

text \<open>
  A database file holds tables by name; the files are addressed by path, relative
  paths from the working directory.
\<close>

type_synonym store = "string \<rightharpoonup> table"

type_synonym filesystem = "path \<rightharpoonup> store"

text \<open>\<^verbatim>\<open>Path.name\<close>: the final part, empty for the root and for the empty path.\<close>

definition path_name :: "path \<Rightarrow> string" where
  "path_name p = (if p = [] \<or> p = [''/''] then [] else last p)"

text \<open>
  \<^verbatim>\<open>create_engine('sqlite:///' + name)\<close>: a database file of that name in the working
  directory, or a private in-memory database when the name is empty or \<^verbatim>\<open>:memory:\<close>.
\<close>

datatype engine = Memory | File path

definition create_engine :: "string \<Rightarrow> engine" where
  "create_engine name = (if name = [] \<or> name = '':memory:'' then Memory else File [name])"

text \<open>
  \<^verbatim>\<open>df.to_sql(name, engine, index=...)\<close> with the default \<^verbatim>\<open>if_exists='fail'\<close>, on the
  tables \<open>st\<close> of the opened database: the existence test comes first; then the table
  is created and filled. Whether the engine takes the frame's schema and values is the
  parameter \<open>accepts\<close>. With \<open>index\<close> the row positions are written as a first column.
\<close>

definition with_index :: "table \<Rightarrow> table" where
  "with_index df =
     \<lparr>columns = ''index'' # columns df, dtypes = Int64 # dtypes df,
      rows = map (\<lambda>(k, r). Num (int k) # r) (zip [0..<length (rows df)] (rows df))\<rparr>"

definition to_sql :: "(table \<Rightarrow> bool) \<Rightarrow> table \<Rightarrow> string \<Rightarrow> bool \<Rightarrow> store \<Rightarrow> store \<times> (error + unit)" where
  "to_sql accepts df name index st =
     (if name \<in> dom st then (st, Inl (ValueError TableExists))
      else (let written = (if index then with_index df else df)
            in if accepts written then (st(name \<mapsto> written), Inr ())
               else (st, Inl EngineError)))"

text \<open>
  \<^verbatim>\<open>save_data\<close> returns the file system as the call leaves it and the outcome.
  Connecting creates the database file when it is absent.
\<close>

definition save_data :: "(table \<Rightarrow> bool) \<Rightarrow> filesystem \<Rightarrow> table \<Rightarrow> path \<Rightarrow> filesystem \<times> (error + unit)" where
  "save_data accepts fs df database_filename =
     (case create_engine (path_name database_filename) of
        Memory \<Rightarrow> (fs, snd (to_sql accepts df ''messages'' False Map.empty))
      | File f \<Rightarrow>
          (let st = (case fs f of None \<Rightarrow> Map.empty | Some s \<Rightarrow> s);
               (st', res) = to_sql accepts df ''messages'' False st
           in (fs(f \<mapsto> st'), res)))"

section \<open>Properties of the primitives\<close>

lemma traverse_Inr_iff:
  "traverse f xs = Inr ys \<longleftrightarrow> list_all2 (\<lambda>x y. f x = Inr y) xs ys"
proof (induction xs arbitrary: ys)
  case Nil
  then show ?case by auto
next
  case (Cons x xs)
  show ?case
  proof (cases ys)
    case Nil
    then show ?thesis by (simp split: sum.splits)
  next
    case (Cons y ys')
    show ?thesis
    proof (cases "f x")
      case (Inl e)
      then show ?thesis by (simp add: Cons)
    next
      case (Inr z)
      show ?thesis
      proof (cases "traverse f xs")
        case (Inl e)
        with Cons.IH [of ys'] Inr Cons show ?thesis by auto
      next
        case (Inr zs)
        with Cons.IH [of zs] Cons.IH [of ys'] \<open>f x = Inr z\<close> Cons show ?thesis by auto
      qed
    qed
  qed
qed

lemma traverse_Inl_elem:
  "traverse f xs = Inl e \<Longrightarrow> \<exists>x\<in>set xs. f x = Inl e"
  by (induction xs) (auto split: sum.splits)

lemma traverse_Inr_length:
  "traverse f xs = Inr ys \<Longrightarrow> length ys = length xs"
  by (simp add: traverse_Inr_iff list_all2_lengthD)

lemma traverse_all_Inr:
  "(\<And>x. x \<in> set xs \<Longrightarrow> f x = Inr (g x)) \<Longrightarrow> traverse f xs = Inr (map g xs)"
  by (induction xs) auto

lemma traverse_succeeds_iff:
  "(\<exists>ys. traverse f xs = Inr ys) \<longleftrightarrow> (\<forall>x\<in>set xs. \<exists>y. f x = Inr y)"
proof (induction xs)
  case Nil
  then show ?case by simp
next
  case (Cons x xs)
  then show ?case by (auto split: sum.splits)
qed

lemma split_on_not_Nil: "split_on sep s \<noteq> []"
  by (induction s) (auto split: list.splits)

lemma map_cells_Inr_length:
  "map_cells f m = Inr n \<Longrightarrow> length n = length m"
  by (auto simp: map_cells_def traverse_Inr_length split: sum.splits)

lemma length_split_expand: "length (split_expand col) = length col"
  by (simp add: split_expand_def Let_def)

lemma bind_err_Inr_iff:
  "bind_err m f = Inr y \<longleftrightarrow> (\<exists>x. m = Inr x \<and> f x = Inr y)"
  by (cases m) (auto simp: bind_err_def)

lemma categories_str_Inr:
  "categories_str df = Inr col \<Longrightarrow>
     \<exists>i. positions ''categories'' (columns df) = [i] \<and> col = map (\<lambda>r. r ! i) (rows df)"
  by (auto simp: categories_str_def Let_def split: list.splits if_splits)

lemma expand_categories_Inr:
  assumes "expand_categories df = Inr (names, ints)"
  shows "rows df \<noteq> [] \<and> length ints = length (rows df) \<and>
         (\<exists>i. positions ''categories'' (columns df) = [i])"
proof -
  from assms obtain col first_row suffixes where
    c: "categories_str df = Inr col" and
    f: "iloc0 (split_expand col) = Inr first_row" and
    s: "map_cells suffix_of (split_expand col) = Inr suffixes" and
    i: "map_cells to_int64 suffixes = Inr ints"
    unfolding expand_categories_def Let_def bind_err_Inr_iff by auto
  from c obtain i where p: "positions ''categories'' (columns df) = [i]"
    and col: "col = map (\<lambda>r. r ! i) (rows df)"
    using categories_str_Inr by blast
  from f have "split_expand col \<noteq> []" by (auto simp: iloc0_def)
  then have "col \<noteq> []" using length_split_expand [of col] by auto
  with col have r: "rows df \<noteq> []" by auto
  have "length ints = length col"
    using map_cells_Inr_length [OF s] map_cells_Inr_length [OF i] length_split_expand [of col]
    by simp
  with col r p show ?thesis by simp
qed

lemma clean_data_rows_empty:
  assumes "rows t = []"
  shows "clean_data t =
    (t, Inl (case positions ''categories'' (columns t) of
               [i] \<Rightarrow> if dtypes t ! i = Object then IndexError else AttributeError
             | _ \<Rightarrow> AttributeError))"
proof (cases "positions ''categories'' (columns t)")
  case Nil
  then show ?thesis
    by (simp add: clean_data_def expand_categories_def categories_str_def bind_err_def)
next
  case (Cons i js)
  show ?thesis
  proof (cases js)
    case Nil
    with Cons assms show ?thesis
      by (simp add: clean_data_def expand_categories_def categories_str_def bind_err_def
          split_expand_def expand_width_def iloc0_def)
  next
    case (Cons j ks)
    with \<open>positions ''categories'' (columns t) = i # js\<close> show ?thesis
      by (simp add: clean_data_def expand_categories_def categories_str_def bind_err_def)
  qed
qed

lemma set_col_major:
  assumes "\<forall>x\<in>set m. length x = w"
  shows "set (col_major m) = \<Union> (set ` set m)"
proof (cases m)
  case Nil
  then show ?thesis by (simp add: col_major_def)
next
  case (Cons r rest)
  with assms have w: "length r = w" by simp
  have cm: "set (col_major m) = (\<Union>j\<in>{0..<w}. (\<lambda>x. x ! j) ` set m)"
    unfolding col_major_def Cons list.case w by simp
  show ?thesis
  proof (intro set_eqI iffI)
    fix v assume "v \<in> set (col_major m)"
    then obtain j x where "j < w" "x \<in> set m" "v = x ! j"
      unfolding cm by auto
    moreover from this assms have "j < length x" by simp
    ultimately show "v \<in> \<Union> (set ` set m)" using nth_mem [of j x] by blast
  next
    fix v assume "v \<in> \<Union> (set ` set m)"
    then obtain x where x: "x \<in> set m" "v \<in> set x" by auto
    then obtain j where "j < length x" "v = x ! j" by (auto simp: in_set_conv_nth)
    with x assms have "j < w" by auto
    with x \<open>v = x ! j\<close> show "v \<in> set (col_major m)"
      unfolding cm by auto
  qed
qed

lemma map_cells_Inr_all2:
  "map_cells f m = Inr n \<Longrightarrow> list_all2 (list_all2 (\<lambda>x y. f x = Inr y)) m n"
  by (auto simp: map_cells_def traverse_Inr_iff split: sum.splits elim: list_all2_mono)


lemma map_cells_Inl_elem:
  assumes "\<forall>x\<in>set m. length x = w" and "map_cells f m = Inl e"
  shows "\<exists>x\<in>set m. \<exists>v\<in>set x. f v = Inl e"
proof (cases "traverse f (col_major m)")
  case (Inl e')
  with assms(2) have "e' = e" by (simp add: map_cells_def)
  with Inl traverse_Inl_elem [of f "col_major m" e] set_col_major [OF assms(1)]
  show ?thesis by auto
next
  case (Inr ys)
  with assms(2) have "traverse (traverse f) m = Inl e" by (simp add: map_cells_def)
  then obtain x where "x \<in> set m" "traverse f x = Inl e"
    using traverse_Inl_elem by blast
  then show ?thesis using traverse_Inl_elem [of f x e] by blast
qed

lemma filter_positions:
  "map ((!) cs) (filter (\<lambda>i. P (cs ! i)) [0..<length cs]) = filter P cs"
proof -
  have "filter P cs = filter P (map ((!) cs) [0..<length cs])"
    by (simp add: map_nth)
  also have "\<dots> = map ((!) cs) (filter (\<lambda>i. P (cs ! i)) [0..<length cs])"
    by (simp add: filter_map comp_def)
  finally show ?thesis by simp
qed

lemma columns_drop_columns:
  "columns (drop_columns name df) = filter (\<lambda>c. c \<noteq> name) (columns df)"
  using filter_positions [of "columns df" "\<lambda>c. c \<noteq> name"]
  by (simp add: drop_columns_def Let_def)

lemma length_rows_drop_columns:
  "length (rows (drop_columns name df)) = length (rows df)"
  by (simp add: drop_columns_def Let_def)

lemma clean_data_Inr:
  assumes "expand_categories df = Inr (names, ints)"
  shows "clean_data df =
     (drop_columns ''categories'' df,
      Inr \<lparr>columns = columns (drop_columns ''categories'' df) @ names,
           dtypes = dtypes (drop_columns ''categories'' df) @ replicate (length names) Int64,
           rows = drop_duplicates
             (map (\<lambda>(r, s). r @ s)
                (zip (rows (drop_columns ''categories'' df)) (map (map Num) ints)))\<rparr>)"
proof -
  from expand_categories_Inr [OF assms]
  have "rows df \<noteq> []" and "length ints = length (rows df)" by auto
  then have "ints \<noteq> []" and "rows (drop_columns ''categories'' df) \<noteq> []"
    using length_rows_drop_columns [of "''categories''" df] by auto
  then show ?thesis
    by (simp add: clean_data_def assms Let_def concat_axis1_def)
qed

lemma clean_data_Inl:
  assumes "expand_categories df = Inl e"
  shows "clean_data df = (df, Inl e)"
  using assms by (simp add: clean_data_def)

text \<open>
  Claim C2, as the code has it. On a table with no row, \<^verbatim>\<open>clean_data\<close> stops before the
  division of line 44. When the table has a single \<^verbatim>\<open>categories\<close> column of the object
  dtype, line 35 raises an index error: the expanded frame has no first row for
  \<^verbatim>\<open>iloc[0]\<close>. Otherwise (no such column, a repeated label, or a numeric dtype) line 34
  raises an attribute error. The caller's table is unchanged either way.
\<close>

theorem clean_data_empty_table:
  assumes "rows t = []"
  shows "clean_data t =
      (t, Inl (case positions ''categories'' (columns t) of
                 [i] \<Rightarrow> if dtypes t ! i = Object then IndexError else AttributeError
               | _ \<Rightarrow> AttributeError))
    \<and> snd (clean_data t) \<noteq> Inl ZeroDivisionError"
proof -
  note e = clean_data_rows_empty [OF assms]
  have "snd (clean_data t) \<noteq> Inl ZeroDivisionError"
    unfolding e by (simp split: list.splits)
  with e show ?thesis by simp
qed

theorem clean_data_empty_table_witness:
  "rows \<lparr>columns = [''id'', ''message'', ''categories''], dtypes = [Int64, Object, Object], rows = []\<rparr> = []
   \<and> clean_data \<lparr>columns = [''id'', ''message'', ''categories''], dtypes = [Int64, Object, Object], rows = []\<rparr> =
       (\<lparr>columns = [''id'', ''message'', ''categories''], dtypes = [Int64, Object, Object], rows = []\<rparr>,
        Inl IndexError)
   \<and> clean_data \<lparr>columns = [''id'', ''message'', ''categories''], dtypes = [Int64, Object, Float64], rows = []\<rparr> =
       (\<lparr>columns = [''id'', ''message'', ''categories''], dtypes = [Int64, Object, Float64], rows = []\<rparr>,
        Inl AttributeError)"
  using clean_data_empty_table
          [of "\<lparr>columns = [''id'', ''message'', ''categories''], dtypes = [Int64, Object, Object], rows = []\<rparr>"]
        clean_data_empty_table
          [of "\<lparr>columns = [''id'', ''message'', ''categories''], dtypes = [Int64, Object, Float64], rows = []\<rparr>"]
  by (simp add: positions_def)

text \<open>
  Claim C2 as stated fails: on the empty table with columns \<^verbatim>\<open>id\<close>, \<^verbatim>\<open>message\<close> and
  \<^verbatim>\<open>categories\<close>, the last two of the object dtype, the exception is the index error of
  line 35, not a division by zero.
\<close>

theorem clean_data_empty_not_zero_division:
  "snd (clean_data \<lparr>columns = [''id'', ''message'', ''categories''], dtypes = [Int64, Object, Object], rows = []\<rparr>)
     = Inl IndexError
   \<and> snd (clean_data \<lparr>columns = [''id'', ''message'', ''categories''], dtypes = [Int64, Object, Object], rows = []\<rparr>)
       \<noteq> Inl ZeroDivisionError"
  by code_simp

text \<open>
  Claim C4, as the code has it. When \<^verbatim>\<open>clean_data\<close> returns a table, the caller's table
  has lost its \<^verbatim>\<open>categories\<close> column (line 39 drops it in place) and keeps its other
  columns and its row count; when \<^verbatim>\<open>clean_data\<close> raises, the caller's table is unchanged.
\<close>

theorem clean_data_caller_frame:
  "(\<forall>out. snd (clean_data t) = Inr out \<longrightarrow>
      fst (clean_data t) = drop_columns ''categories'' t
      \<and> columns (fst (clean_data t)) = filter (\<lambda>c. c \<noteq> ''categories'') (columns t)
      \<and> ''categories'' \<notin> set (columns (fst (clean_data t)))
      \<and> length (rows (fst (clean_data t))) = length (rows t))
   \<and> (\<forall>e. snd (clean_data t) = Inl e \<longrightarrow> fst (clean_data t) = t)"
proof (cases "expand_categories t")
  case (Inl e)
  then show ?thesis by (simp add: clean_data_Inl)
next
  case (Inr p)
  obtain names ints where "p = (names, ints)" by (cases p)
  with Inr show ?thesis
    by (simp add: clean_data_Inr columns_drop_columns length_rows_drop_columns)
qed

theorem clean_data_caller_frame_witness:
  "snd (clean_data \<lparr>columns = [''id'', ''categories''], dtypes = [Int64, Object], rows = [[Num 1, Str ''related-1;request-0'']]\<rparr>)
     = Inr \<lparr>columns = [''id'', ''related'', ''request''], dtypes = [Int64, Int64, Int64], rows = [[Num 1, Num 1, Num 0]]\<rparr>
   \<and> columns (fst (clean_data \<lparr>columns = [''id'', ''categories''], dtypes = [Int64, Object], rows = [[Num 1, Str ''related-1;request-0'']]\<rparr>))
     = [''id'']
   \<and> snd (clean_data \<lparr>columns = [''id'', ''categories''], dtypes = [Int64, Float64], rows = [[Num 1, NaN]]\<rparr>) = Inl AttributeError
   \<and> fst (clean_data \<lparr>columns = [''id'', ''categories''], dtypes = [Int64, Float64], rows = [[Num 1, NaN]]\<rparr>)
     = \<lparr>columns = [''id'', ''categories''], dtypes = [Int64, Float64], rows = [[Num 1, NaN]]\<rparr>"
proof -
  let ?a = "\<lparr>columns = [''id'', ''categories''], dtypes = [Int64, Object], rows = [[Num 1, Str ''related-1;request-0'']]\<rparr>"
  let ?b = "\<lparr>columns = [''id'', ''categories''], dtypes = [Int64, Float64], rows = [[Num 1, NaN]]\<rparr>"
  have a: "snd (clean_data ?a)
     = Inr \<lparr>columns = [''id'', ''related'', ''request''], dtypes = [Int64, Int64, Int64], rows = [[Num 1, Num 1, Num 0]]\<rparr>"
    by code_simp
  have b: "snd (clean_data ?b) = Inl AttributeError"
    by code_simp
  have "columns (fst (clean_data ?a)) = filter (\<lambda>c. c \<noteq> ''categories'') (columns ?a)"
    using clean_data_caller_frame [of ?a] a by blast
  then have "columns (fst (clean_data ?a)) = [''id'']" by simp
  moreover have "fst (clean_data ?b) = ?b"
    using clean_data_caller_frame [of ?b] b by blast
  ultimately show ?thesis using a b by simp
qed

text \<open>
  Claim C4 as stated fails: after a successful call on a one-row table the caller's table
  differs from what it was and no longer has the \<^verbatim>\<open>categories\<close> column.
\<close>

theorem clean_data_not_pure:
  "snd (clean_data \<lparr>columns = [''id'', ''categories''], dtypes = [Int64, Object], rows = [[Num 1, Str ''related-1;request-0'']]\<rparr>)
     = Inr \<lparr>columns = [''id'', ''related'', ''request''], dtypes = [Int64, Int64, Int64], rows = [[Num 1, Num 1, Num 0]]\<rparr>
   \<and> fst (clean_data \<lparr>columns = [''id'', ''categories''], dtypes = [Int64, Object], rows = [[Num 1, Str ''related-1;request-0'']]\<rparr>)
     = \<lparr>columns = [''id''], dtypes = [Int64], rows = [[Num 1]]\<rparr>
   \<and> fst (clean_data \<lparr>columns = [''id'', ''categories''], dtypes = [Int64, Object], rows = [[Num 1, Str ''related-1;request-0'']]\<rparr>)
     \<noteq> \<lparr>columns = [''id'', ''categories''], dtypes = [Int64, Object], rows = [[Num 1, Str ''related-1;request-0'']]\<rparr>
   \<and> ''categories'' \<notin> set (columns (fst (clean_data
        \<lparr>columns = [''id'', ''categories''], dtypes = [Int64, Object], rows = [[Num 1, Str ''related-1;request-0'']]\<rparr>)))"
  by code_simp

section \<open>The persister writes once\<close>










text \<open>
  Claim C1 at the destination \<^verbatim>\<open>data/disaster_response.db\<close>: \<^verbatim>\<open>save_data\<close> passes only
  \<^verbatim>\<open>database_filename.name\<close> to the engine, so the table \<^verbatim>\<open>messages\<close> (with the frame's
  own columns, no index column) lands in \<^verbatim>\<open>disaster_response.db\<close> of the working
  directory and nothing is written at the given path.
\<close>

theorem save_data_drops_directory:
  "snd (save_data (\<lambda>_. True) Map.empty
          \<lparr>columns = [''id'', ''related''], dtypes = [Int64, Int64], rows = [[Num 1, Num 1]]\<rparr> [''data'', ''disaster_response.db''])
     = Inr ()
   \<and> fst (save_data (\<lambda>_. True) Map.empty
          \<lparr>columns = [''id'', ''related''], dtypes = [Int64, Int64], rows = [[Num 1, Num 1]]\<rparr> [''data'', ''disaster_response.db''])
        [''data'', ''disaster_response.db''] = None
   \<and> fst (save_data (\<lambda>_. True) Map.empty
          \<lparr>columns = [''id'', ''related''], dtypes = [Int64, Int64], rows = [[Num 1, Num 1]]\<rparr> [''data'', ''disaster_response.db''])
        [''disaster_response.db'']
     = Some [''messages'' \<mapsto> \<lparr>columns = [''id'', ''related''], dtypes = [Int64, Int64], rows = [[Num 1, Num 1]]\<rparr>]"
  by (simp add: save_data_def create_engine_def path_name_def to_sql_def)

section \<open>The loader is an inner join\<close>

lemma key_column_Inr_iff: "key_column name df = Inr i \<longleftrightarrow> positions name (columns df) = [i]"
  by (auto simp: key_column_def split: list.splits)

lemma read_csv_Inr_iff: "read_csv files p = Inr df \<longleftrightarrow> files p = Some df"
  by (auto simp: read_csv_def split: option.splits)

lemma merge_on_id_Inr:
  assumes "merge_on_id left right = Inr out"
  shows "\<exists>i j. positions ''id'' (columns left) = [i] \<and> positions ''id'' (columns right) = [j]
     \<and> rows out = concat (map (\<lambda>l. map (\<lambda>r. l @ remove_nth j r)
                       (filter (\<lambda>r. r ! j = l ! i) (rows right))) (rows left))
     \<and> columns out =
         map (\<lambda>c. if c \<in> set (remove_nth j (columns right)) then c @ ''_x'' else c) (columns left)
         @ map (\<lambda>c. if c \<in> set (columns left) then c @ ''_y'' else c) (remove_nth j (columns right))
     \<and> dtypes out = dtypes left @ remove_nth j (dtypes right)"
proof -
  from assms obtain j i where j: "key_column ''id'' right = Inr j"
    and i: "key_column ''id'' left = Inr i"
    and rest: "(let lk = map (\<lambda>r. r ! i) (rows left);
             rk = map (\<lambda>r. r ! j) (rows right)
         in if lk \<noteq> [] \<and> rk \<noteq> [] \<and> list_ex is_Str lk \<noteq> list_ex is_Str rk
            then Inl (ValueError IncompatibleKeys)
            else
              (let lcols = columns left;
                   rcols = remove_nth j (columns right);
                   llabels = map (\<lambda>c. if c \<in> set rcols then c @ ''_x'' else c) lcols;
                   rlabels = map (\<lambda>c. if c \<in> set lcols then c @ ''_y'' else c) rcols
               in if suffix_dups lcols llabels @ suffix_dups rcols rlabels \<noteq> []
                  then Inl MergeError
                  else Inr \<lparr>columns = llabels @ rlabels,
                            dtypes = dtypes left @ remove_nth j (dtypes right),
                            rows = concat (map (\<lambda>l.
                                     map (\<lambda>r. l @ remove_nth j r)
                                       (filter (\<lambda>r. r ! j = l ! i) (rows right)))
                                     (rows left))\<rparr>)) = Inr out"
    unfolding merge_on_id_def bind_err_Inr_iff by blast
  from rest have "out = \<lparr>columns =
         map (\<lambda>c. if c \<in> set (remove_nth j (columns right)) then c @ ''_x'' else c) (columns left)
         @ map (\<lambda>c. if c \<in> set (columns left) then c @ ''_y'' else c) (remove_nth j (columns right)),
       dtypes = dtypes left @ remove_nth j (dtypes right),
       rows = concat (map (\<lambda>l. map (\<lambda>r. l @ remove_nth j r)
                       (filter (\<lambda>r. r ! j = l ! i) (rows right))) (rows left))\<rparr>"
    by (simp add: Let_def split: if_splits)
  with i j show ?thesis by (simp add: key_column_Inr_iff)
qed

lemma load_data_Inr:
  assumes "load_data files mp cp = Inr out"
  shows "\<exists>M C. files mp = Some M \<and> files cp = Some C \<and> merge_on_id M C = Inr out"
  using assms unfolding load_data_def bind_err_Inr_iff read_csv_Inr_iff by blast

lemma length_filter_key:
  assumes "distinct (map f xs)"
  shows "length (filter (\<lambda>x. f x = k) xs) = (if k \<in> f ` set xs then 1 else 0)"
  using assms by (induction xs) auto

lemma length_concat_indicator:
  "length (concat (map (\<lambda>l. map (g l) (filter (\<lambda>r. f r = h l) ys)) xs))
     = sum_list (map (\<lambda>l. length (filter (\<lambda>r. f r = h l) ys)) xs)"
  by (induction xs) auto

lemma sum_list_indicator:
  "sum_list (map (\<lambda>l. if P l then 1 else 0) xs) = length (filter P xs)"
  by (induction xs) auto

lemma join_count:
  assumes "distinct (map f ys)" and "distinct (map h xs)"
  shows "length (concat (map (\<lambda>l. map (g l) (filter (\<lambda>r. f r = h l) ys)) xs))
     = card (set (map h xs) \<inter> set (map f ys))"
proof -
  have "length (concat (map (\<lambda>l. map (g l) (filter (\<lambda>r. f r = h l) ys)) xs))
      = length (filter (\<lambda>l. h l \<in> f ` set ys) xs)"
    by (simp add: length_concat_indicator length_filter_key [OF assms(1)] sum_list_indicator)
  also have "\<dots> = length (filter (\<lambda>k. k \<in> f ` set ys) (map h xs))"
    by (simp add: filter_map comp_def)
  also have "\<dots> = card (set (filter (\<lambda>k. k \<in> f ` set ys) (map h xs)))"
    using assms(2) by (simp add: distinct_card del: set_filter)
  also have "set (filter (\<lambda>k. k \<in> f ` set ys) (map h xs)) = set (map h xs) \<inter> set (map f ys)"
    by auto
  finally show ?thesis .
qed

lemma card_inter_min:
  assumes "finite A" and "finite B"
  shows "card (A \<inter> B) \<le> min (card A) (card B)
    \<and> (card (A \<inter> B) = min (card A) (card B) \<longleftrightarrow> A \<subseteq> B \<or> B \<subseteq> A)"
proof -
  have a: "card (A \<inter> B) \<le> card A" using assms by (simp add: card_mono)
  have b: "card (A \<inter> B) \<le> card B" using assms by (simp add: card_mono)
  have ea: "card (A \<inter> B) = card A \<longleftrightarrow> A \<subseteq> B"
    using assms by (metis Int_lower1 card_subset_eq inf.absorb_iff1)
  have eb: "card (A \<inter> B) = card B \<longleftrightarrow> B \<subseteq> A"
    using assms by (metis Int_lower2 card_subset_eq inf.absorb_iff2)
  show ?thesis using a b ea eb by (auto simp: min_def)
qed


lemma positions_single:
  assumes "positions name cs = [j]"
  shows "j < length cs \<and> cs ! j = name \<and> name \<notin> set (remove_nth j cs)
         \<and> length (filter (\<lambda>c. c = name) cs) = 1"
proof -
  have mem: "\<And>k. k \<in> set (positions name cs) \<longleftrightarrow> k < length cs \<and> cs ! k = name"
    by (auto simp: positions_def)
  from mem [of j] assms have j: "j < length cs" "cs ! j = name" by auto
  have other: "\<And>k. k < length cs \<Longrightarrow> k \<noteq> j \<Longrightarrow> cs ! k \<noteq> name"
    using mem assms by auto
  have "name \<notin> set (take j cs)"
  proof
    assume "name \<in> set (take j cs)"
    then obtain k where "k < length (take j cs)" "take j cs ! k = name"
      by (auto simp: in_set_conv_nth)
    then have "k < length cs" "k \<noteq> j" "cs ! k = name" by auto
    with other show False by blast
  qed
  moreover have "name \<notin> set (drop (Suc j) cs)"
  proof
    assume "name \<in> set (drop (Suc j) cs)"
    then obtain k where "k < length (drop (Suc j) cs)" "drop (Suc j) cs ! k = name"
      by (auto simp: in_set_conv_nth)
    then have "Suc j + k < length cs" "Suc j + k \<noteq> j" "cs ! (Suc j + k) = name" by auto
    with other show False by blast
  qed
  moreover have "length (filter (\<lambda>c. c = name) cs) = 1"
    using filter_positions [of cs "\<lambda>c. c = name"] assms
    by (metis length_map length_Cons list.size(3) One_nat_def positions_def)
  ultimately show ?thesis using j by (simp add: remove_nth_def)
qed

lemma length_remove_nth: "j < length xs \<Longrightarrow> length (remove_nth j xs) = length xs - 1"
  by (auto simp: remove_nth_def)

text \<open>
  Claim C3, as the code has it. When no id value is repeated within either input, the
  joined table has one row per common id, so at most as many rows as the smaller input,
  and exactly as many when the ids of one input all occur in the other (as they do when
  the id sets are identical).
\<close>

theorem load_data_row_count:
  assumes "load_data files mp cp = Inr out"
    and "files mp = Some M" and "files cp = Some C"
    and "positions ''id'' (columns M) = [i]" and "positions ''id'' (columns C) = [j]"
    and "distinct (map (\<lambda>r. r ! i) (rows M))" and "distinct (map (\<lambda>r. r ! j) (rows C))"
  shows "length (rows out)
           = card (set (map (\<lambda>r. r ! i) (rows M)) \<inter> set (map (\<lambda>r. r ! j) (rows C)))
    \<and> length (rows out) \<le> min (length (rows M)) (length (rows C))
    \<and> (length (rows out) = min (length (rows M)) (length (rows C)) \<longleftrightarrow>
         set (map (\<lambda>r. r ! i) (rows M)) \<subseteq> set (map (\<lambda>r. r ! j) (rows C))
         \<or> set (map (\<lambda>r. r ! j) (rows C)) \<subseteq> set (map (\<lambda>r. r ! i) (rows M)))"
proof -
  let ?A = "set (map (\<lambda>r. r ! i) (rows M))"
  let ?B = "set (map (\<lambda>r. r ! j) (rows C))"
  from load_data_Inr [OF assms(1)] assms(2,3) have "merge_on_id M C = Inr out" by auto
  from merge_on_id_Inr [OF this] assms(4,5)
  have "rows out = concat (map (\<lambda>l. map (\<lambda>r. l @ remove_nth j r)
                       (filter (\<lambda>r. r ! j = l ! i) (rows C))) (rows M))"
    by auto
  then have n: "length (rows out) = card (?A \<inter> ?B)"
    using join_count [OF assms(7) assms(6), of "\<lambda>l r. l @ remove_nth j r"] by simp
  have "card ?A = length (rows M)" using assms(6) distinct_card by fastforce
  moreover have "card ?B = length (rows C)" using assms(7) distinct_card by fastforce
  ultimately show ?thesis
    using n card_inter_min [of ?A ?B] by simp
qed

text \<open>
  Claim C7, as the code has it. The rows of the loaded table are, for each messages row
  in order, its pairings with the categories rows of equal id in order, each the
  messages row followed by the categories row without its id cell; so a row is there
  exactly for such a pair, and the ids of the result are the ids present in both
  inputs. The columns are the messages columns followed by the categories columns
  without \<^verbatim>\<open>id\<close>, where a label that both inputs carry besides \<^verbatim>\<open>id\<close> gets the suffix
  \<^verbatim>\<open>_x\<close> among the former and \<^verbatim>\<open>_y\<close> among the latter; there is one column less than in
  both inputs together. When the inputs share no label besides \<^verbatim>\<open>id\<close>, the columns are
  the inputs' own labels and \<^verbatim>\<open>id\<close> labels one column.
\<close>

theorem load_data_inner_join:
  assumes "load_data files mp cp = Inr out"
    and "files mp = Some M" and "files cp = Some C"
    and "positions ''id'' (columns M) = [i]" and "positions ''id'' (columns C) = [j]"
  shows "rows out = concat (map (\<lambda>l. map (\<lambda>r. l @ remove_nth j r)
                               (filter (\<lambda>r. r ! j = l ! i) (rows C))) (rows M))
    \<and> set (rows out)
           = {l @ remove_nth j r | l r. l \<in> set (rows M) \<and> r \<in> set (rows C) \<and> r ! j = l ! i}
    \<and> columns out =
         map (\<lambda>c. if c \<in> set (remove_nth j (columns C)) then c @ ''_x'' else c) (columns M)
         @ map (\<lambda>c. if c \<in> set (columns M) then c @ ''_y'' else c) (remove_nth j (columns C))
    \<and> (wf_table M \<longrightarrow>
         (\<lambda>row. row ! i) ` set (rows out)
           = set (map (\<lambda>r. r ! i) (rows M)) \<inter> set (map (\<lambda>r. r ! j) (rows C)))
    \<and> length (columns out) = length (columns M) + length (columns C) - 1
    \<and> (set (columns M) \<inter> set (remove_nth j (columns C)) = {} \<longrightarrow>
         columns out = columns M @ remove_nth j (columns C)
         \<and> length (filter (\<lambda>c. c = ''id'') (columns out)) = 1)"
proof -
  from load_data_Inr [OF assms(1)] assms(2,3) have "merge_on_id M C = Inr out" by auto
  from merge_on_id_Inr [OF this] assms(4,5)
  have r: "rows out = concat (map (\<lambda>l. map (\<lambda>r. l @ remove_nth j r)
                       (filter (\<lambda>r. r ! j = l ! i) (rows C))) (rows M))"
    and c: "columns out =
         map (\<lambda>c. if c \<in> set (remove_nth j (columns C)) then c @ ''_x'' else c) (columns M)
         @ map (\<lambda>c. if c \<in> set (columns M) then c @ ''_y'' else c) (remove_nth j (columns C))"
    by auto
  note pi = positions_single [OF assms(4)]
  note pj = positions_single [OF assms(5)]
  have rows: "set (rows out)
           = {l @ remove_nth j r | l r. l \<in> set (rows M) \<and> r \<in> set (rows C) \<and> r ! j = l ! i}"
    unfolding r by auto
  have ids: "(\<lambda>row. row ! i) ` set (rows out)
           = set (map (\<lambda>r. r ! i) (rows M)) \<inter> set (map (\<lambda>r. r ! j) (rows C))"
    if wf: "wf_table M"
  proof -
    have len: "\<And>l. l \<in> set (rows M) \<Longrightarrow> i < length l"
      using wf pi by (auto simp: wf_table_def list_all_iff)
    show ?thesis
    proof (intro set_eqI iffI)
      fix k assume "k \<in> (\<lambda>row. row ! i) ` set (rows out)"
      then obtain l r' where "l \<in> set (rows M)" "r' \<in> set (rows C)" "r' ! j = l ! i"
        "k = (l @ remove_nth j r') ! i"
        unfolding rows by auto
      moreover from this len have "k = l ! i" by (simp add: nth_append)
      ultimately show "k \<in> set (map (\<lambda>r. r ! i) (rows M)) \<inter> set (map (\<lambda>r. r ! j) (rows C))"
        by force
    next
      fix k assume "k \<in> set (map (\<lambda>r. r ! i) (rows M)) \<inter> set (map (\<lambda>r. r ! j) (rows C))"
      then obtain l r' where lr: "l \<in> set (rows M)" "r' \<in> set (rows C)" "k = l ! i" "k = r' ! j"
        by auto
      then have "l @ remove_nth j r' \<in> set (rows out)" unfolding rows by auto
      moreover have "(l @ remove_nth j r') ! i = k" using lr len by (simp add: nth_append)
      ultimately show "k \<in> (\<lambda>row. row ! i) ` set (rows out)" by force
    qed
  qed
  have n: "length (columns out) = length (columns M) + length (columns C) - 1"
    using c pi pj by (simp add: length_remove_nth)
  have cols: "columns out = columns M @ remove_nth j (columns C)
         \<and> length (filter (\<lambda>c. c = ''id'') (columns out)) = 1"
    if dis: "set (columns M) \<inter> set (remove_nth j (columns C)) = {}"
  proof -
    have "map (\<lambda>c. if c \<in> set (remove_nth j (columns C)) then c @ ''_x'' else c) (columns M)
        = columns M"
      using dis by (intro map_idI) auto
    moreover
    have "map (\<lambda>c. if c \<in> set (columns M) then c @ ''_y'' else c) (remove_nth j (columns C))
        = remove_nth j (columns C)"
      using dis by (intro map_idI) auto
    ultimately have e: "columns out = columns M @ remove_nth j (columns C)"
      using c by simp
    have "filter (\<lambda>c. c = ''id'') (remove_nth j (columns C)) = []"
      using pj by (auto simp: filter_empty_conv)
    then show ?thesis using e pi by simp
  qed
  show ?thesis using r c rows ids n cols by blast
qed


theorem load_data_row_count_witness:
  "load_data
     [[''messages.csv''] \<mapsto>
        \<lparr>columns = [''id'', ''message''], dtypes = [Int64, Object],
         rows = [[Num 1, Str ''help''], [Num 2, Str ''ok''], [Num 3, Str ''water'']]\<rparr>,
      [''categories.csv''] \<mapsto>
        \<lparr>columns = [''id'', ''categories''], dtypes = [Int64, Object],
         rows = [[Num 2, Str ''related-1''], [Num 3, Str ''related-0'']]\<rparr>]
     [''messages.csv''] [''categories.csv'']
   = Inr \<lparr>columns = [''id'', ''message'', ''categories''], dtypes = [Int64, Object, Object],
           rows = [[Num 2, Str ''ok'', Str ''related-1''], [Num 3, Str ''water'', Str ''related-0'']]\<rparr>
   \<and> length (rows \<lparr>columns = [''id'', ''message'', ''categories''], dtypes = [Int64, Object, Object],
           rows = [[Num 2, Str ''ok'', Str ''related-1''], [Num 3, Str ''water'', Str ''related-0'']]\<rparr>)
       = min (3::nat) 2
   \<and> {Num 2, Num 3} \<subseteq> {Num 1, Num 2, Num 3}"
proof -
  let ?M = "\<lparr>columns = [''id'', ''message''], dtypes = [Int64, Object],
         rows = [[Num 1, Str ''help''], [Num 2, Str ''ok''], [Num 3, Str ''water'']]\<rparr>"
  let ?C = "\<lparr>columns = [''id'', ''categories''], dtypes = [Int64, Object],
         rows = [[Num 2, Str ''related-1''], [Num 3, Str ''related-0'']]\<rparr>"
  let ?files = "[[''messages.csv''] \<mapsto> ?M, [''categories.csv''] \<mapsto> ?C]"
  let ?out = "\<lparr>columns = [''id'', ''message'', ''categories''], dtypes = [Int64, Object, Object],
           rows = [[Num 2, Str ''ok'', Str ''related-1''], [Num 3, Str ''water'', Str ''related-0'']]\<rparr>"
  have l: "load_data ?files [''messages.csv''] [''categories.csv''] = Inr ?out"
    by code_simp
  have m: "?files [''messages.csv''] = Some ?M" by simp
  have c: "?files [''categories.csv''] = Some ?C" by simp
  have pm: "positions ''id'' (columns ?M) = [0]" by (simp add: positions_def)
  have pc: "positions ''id'' (columns ?C) = [0]" by (simp add: positions_def)
  have dm: "distinct (map (\<lambda>r. r ! 0) (rows ?M))" by simp
  have dc: "distinct (map (\<lambda>r. r ! 0) (rows ?C))" by simp
  from load_data_row_count [OF l m c pm pc dm dc]
  have "length (rows ?out) = min (length (rows ?M)) (length (rows ?C)) \<longleftrightarrow>
         set (map (\<lambda>r. r ! 0) (rows ?M)) \<subseteq> set (map (\<lambda>r. r ! 0) (rows ?C))
         \<or> set (map (\<lambda>r. r ! 0) (rows ?C)) \<subseteq> set (map (\<lambda>r. r ! 0) (rows ?M))"
    by blast
  then show ?thesis using l by simp
qed

text \<open>
  Claim C3 as stated fails twice. With the id 1 on two rows of each input the join has
  four rows, more than either input. With ids 1 and 2 in the messages and id 1 alone in
  the categories the join has one row, the minimum, yet the id sets differ.
\<close>

theorem load_data_row_count_exceeds:
  "load_data
     [[''messages.csv''] \<mapsto>
        \<lparr>columns = [''id'', ''message''], dtypes = [Int64, Object], rows = [[Num 1, Str ''help''], [Num 1, Str ''help'']]\<rparr>,
      [''categories.csv''] \<mapsto>
        \<lparr>columns = [''id'', ''categories''], dtypes = [Int64, Object],
         rows = [[Num 1, Str ''related-1''], [Num 1, Str ''related-1'']]\<rparr>]
     [''messages.csv''] [''categories.csv'']
   = Inr \<lparr>columns = [''id'', ''message'', ''categories''], dtypes = [Int64, Object, Object],
           rows = [[Num 1, Str ''help'', Str ''related-1''], [Num 1, Str ''help'', Str ''related-1''],
                   [Num 1, Str ''help'', Str ''related-1''], [Num 1, Str ''help'', Str ''related-1'']]\<rparr>
   \<and> \<not> (4::nat) \<le> min 2 2
   \<and> load_data
     [[''messages.csv''] \<mapsto>
        \<lparr>columns = [''id'', ''message''], dtypes = [Int64, Object], rows = [[Num 1, Str ''help''], [Num 2, Str ''ok'']]\<rparr>,
      [''categories.csv''] \<mapsto>
        \<lparr>columns = [''id'', ''categories''], dtypes = [Int64, Object], rows = [[Num 1, Str ''related-1'']]\<rparr>]
     [''messages.csv''] [''categories.csv'']
   = Inr \<lparr>columns = [''id'', ''message'', ''categories''], dtypes = [Int64, Object, Object],
           rows = [[Num 1, Str ''help'', Str ''related-1'']]\<rparr>
   \<and> (1::nat) = min 2 1
   \<and> {Num 1, Num 2} \<noteq> {Num 1}"
proof -
  have "load_data
     [[''messages.csv''] \<mapsto>
        \<lparr>columns = [''id'', ''message''], dtypes = [Int64, Object], rows = [[Num 1, Str ''help''], [Num 1, Str ''help'']]\<rparr>,
      [''categories.csv''] \<mapsto>
        \<lparr>columns = [''id'', ''categories''], dtypes = [Int64, Object],
         rows = [[Num 1, Str ''related-1''], [Num 1, Str ''related-1'']]\<rparr>]
     [''messages.csv''] [''categories.csv'']
   = Inr \<lparr>columns = [''id'', ''message'', ''categories''], dtypes = [Int64, Object, Object],
           rows = [[Num 1, Str ''help'', Str ''related-1''], [Num 1, Str ''help'', Str ''related-1''],
                   [Num 1, Str ''help'', Str ''related-1''], [Num 1, Str ''help'', Str ''related-1'']]\<rparr>"
    by code_simp
  moreover have "load_data
     [[''messages.csv''] \<mapsto>
        \<lparr>columns = [''id'', ''message''], dtypes = [Int64, Object], rows = [[Num 1, Str ''help''], [Num 2, Str ''ok'']]\<rparr>,
      [''categories.csv''] \<mapsto>
        \<lparr>columns = [''id'', ''categories''], dtypes = [Int64, Object], rows = [[Num 1, Str ''related-1'']]\<rparr>]
     [''messages.csv''] [''categories.csv'']
   = Inr \<lparr>columns = [''id'', ''message'', ''categories''], dtypes = [Int64, Object, Object],
           rows = [[Num 1, Str ''help'', Str ''related-1'']]\<rparr>"
    by code_simp
  moreover have "{Num 1, Num 2} \<noteq> {Num 1}" by auto
  ultimately show ?thesis by simp
qed

theorem load_data_inner_join_witness:
  "load_data
     [[''messages.csv''] \<mapsto>
        \<lparr>columns = [''id'', ''message''], dtypes = [Int64, Object],
         rows = [[Num 1, Str ''help''], [Num 2, Str ''ok''], [Num 3, Str ''water'']]\<rparr>,
      [''categories.csv''] \<mapsto>
        \<lparr>columns = [''id'', ''categories''], dtypes = [Int64, Object],
         rows = [[Num 2, Str ''related-1''], [Num 4, Str ''related-0'']]\<rparr>]
     [''messages.csv''] [''categories.csv'']
   = Inr \<lparr>columns = [''id'', ''message'', ''categories''], dtypes = [Int64, Object, Object],
           rows = [[Num 2, Str ''ok'', Str ''related-1'']]\<rparr>
   \<and> (\<lambda>row. row ! 0) ` set [[Num 2, Str ''ok'', Str ''related-1'']]
       = {Num 1, Num 2, Num 3} \<inter> {Num 2, Num 4}
   \<and> length (filter (\<lambda>c. c = ''id'') [''id'', ''message'', ''categories'']) = 1"
proof -
  let ?M = "\<lparr>columns = [''id'', ''message''], dtypes = [Int64, Object],
         rows = [[Num 1, Str ''help''], [Num 2, Str ''ok''], [Num 3, Str ''water'']]\<rparr>"
  let ?C = "\<lparr>columns = [''id'', ''categories''], dtypes = [Int64, Object],
         rows = [[Num 2, Str ''related-1''], [Num 4, Str ''related-0'']]\<rparr>"
  let ?files = "[[''messages.csv''] \<mapsto> ?M, [''categories.csv''] \<mapsto> ?C]"
  let ?out = "\<lparr>columns = [''id'', ''message'', ''categories''], dtypes = [Int64, Object, Object],
           rows = [[Num 2, Str ''ok'', Str ''related-1'']]\<rparr>"
  have l: "load_data ?files [''messages.csv''] [''categories.csv''] = Inr ?out"
    by code_simp
  have m: "?files [''messages.csv''] = Some ?M" by simp
  have c: "?files [''categories.csv''] = Some ?C" by simp
  have pm: "positions ''id'' (columns ?M) = [0]" by (simp add: positions_def)
  have pc: "positions ''id'' (columns ?C) = [0]" by (simp add: positions_def)
  have wf: "wf_table ?M" by (simp add: wf_table_def)
  have dis: "set (columns ?M) \<inter> set (remove_nth 0 (columns ?C)) = {}"
    by (simp add: remove_nth_def)
  note th = load_data_inner_join [OF l m c pm pc]
  from th wf have "(\<lambda>row. row ! 0) ` set (rows ?out)
           = set (map (\<lambda>r. r ! 0) (rows ?M)) \<inter> set (map (\<lambda>r. r ! 0) (rows ?C))"
    by blast
  moreover from th dis have "length (filter (\<lambda>c. c = ''id'') (columns ?out)) = 1"
    by blast
  ultimately show ?thesis using l by simp
qed

text \<open>
  Claim C7 as stated fails on columns: when both inputs have a column \<^verbatim>\<open>genre\<close>, the
  result holds it twice, as \<^verbatim>\<open>genre_x\<close> and \<^verbatim>\<open>genre_y\<close>, and not under its own label.
\<close>

theorem load_data_shared_label:
  "load_data
     [[''messages.csv''] \<mapsto>
        \<lparr>columns = [''id'', ''message'', ''genre''], dtypes = [Int64, Object, Object], rows = [[Num 1, Str ''help'', Str ''news'']]\<rparr>,
      [''categories.csv''] \<mapsto>
        \<lparr>columns = [''id'', ''categories'', ''genre''], dtypes = [Int64, Object, Object],
         rows = [[Num 1, Str ''related-1'', Str ''news'']]\<rparr>]
     [''messages.csv''] [''categories.csv'']
   = Inr \<lparr>columns = [''id'', ''message'', ''genre_x'', ''categories'', ''genre_y''], dtypes = [Int64, Object, Object, Object, Object],
           rows = [[Num 1, Str ''help'', Str ''news'', Str ''related-1'', Str ''news'']]\<rparr>
   \<and> set [''id'', ''message'', ''genre_x'', ''categories'', ''genre_y'']
       \<noteq> set [''id'', ''message'', ''genre''] \<union> set [''id'', ''categories'', ''genre'']"
proof -
  have "load_data
     [[''messages.csv''] \<mapsto>
        \<lparr>columns = [''id'', ''message'', ''genre''], dtypes = [Int64, Object, Object], rows = [[Num 1, Str ''help'', Str ''news'']]\<rparr>,
      [''categories.csv''] \<mapsto>
        \<lparr>columns = [''id'', ''categories'', ''genre''], dtypes = [Int64, Object, Object],
         rows = [[Num 1, Str ''related-1'', Str ''news'']]\<rparr>]
     [''messages.csv''] [''categories.csv'']
   = Inr \<lparr>columns = [''id'', ''message'', ''genre_x'', ''categories'', ''genre_y''], dtypes = [Int64, Object, Object, Object, Object],
           rows = [[Num 1, Str ''help'', Str ''news'', Str ''related-1'', Str ''news'']]\<rparr>"
    by code_simp
  moreover have "''genre_x'' \<in> set [''id'', ''message'', ''genre_x'', ''categories'', ''genre_y'']"
    by simp
  moreover have "''genre_x'' \<notin> set [''id'', ''message'', ''genre''] \<union> set [''id'', ''categories'', ''genre'']"
    by simp
  ultimately show ?thesis by metis
qed

section \<open>Duplicates are dropped after the expansion\<close>

lemma length_duplicated_from: "length (duplicated_from seen rs) = length rs"
  by (induction rs arbitrary: seen) auto

lemma drop_duplicates_from_Cons:
  "map fst (filter (\<lambda>(r, d). \<not> d) (zip (r # rs) (duplicated_from seen (r # rs))))
     = (if r \<in> set seen then [] else [r])
       @ map fst (filter (\<lambda>(r, d). \<not> d) (zip rs (duplicated_from (r # seen) rs)))"
  by simp

lemma upt_0_Suc: "[0..<Suc n] = 0 # map Suc [0..<n]"
  by (simp add: upt_conv_Cons map_Suc_upt del: upt_Suc)

lemma first_occurrences_from:
  "map fst (filter (\<lambda>(r, d). \<not> d) (zip rs (duplicated_from seen rs)))
     = map ((!) rs) (filter (\<lambda>k. rs ! k \<notin> set seen \<union> set (take k rs)) [0..<length rs])"
proof (induction rs arbitrary: seen)
  case Nil
  then show ?case by simp
next
  case (Cons r rs)
  have "map ((!) (r # rs))
          (filter (\<lambda>k. (r # rs) ! k \<notin> set seen \<union> set (take k (r # rs))) [0..<length (r # rs)])
      = (if r \<in> set seen then [] else [r])
        @ map ((!) rs) (filter (\<lambda>k. rs ! k \<notin> set (r # seen) \<union> set (take k rs)) [0..<length rs])"
    unfolding length_Cons upt_0_Suc
    by (simp add: filter_map comp_def conj_ac del: upt_Suc)
  then show ?case
    unfolding drop_duplicates_from_Cons Cons.IH by (simp add: conj_ac)
qed

lemma drop_duplicates_first_occurrences:
  "drop_duplicates rs = map ((!) rs) (filter (\<lambda>k. rs ! k \<notin> set (take k rs)) [0..<length rs])"
  using first_occurrences_from [of rs "[]"] by (simp add: drop_duplicates_def duplicated_def)

lemma duplicated_from_nth:
  "k < length rs \<Longrightarrow> duplicated_from seen rs ! k \<longleftrightarrow> rs ! k \<in> set seen \<union> set (take k rs)"
proof (induction rs arbitrary: seen k)
  case Nil
  then show ?case by simp
next
  case (Cons r rs)
  then show ?case by (cases k) auto
qed

lemma count_duplicated:
  "length (filter id (duplicated rs))
     = length (filter (\<lambda>k. rs ! k \<in> set (take k rs)) [0..<length rs])"
proof -
  have "duplicated rs = map (\<lambda>k. rs ! k \<in> set (take k rs)) [0..<length rs]"
    by (rule nth_equalityI)
       (simp_all add: duplicated_def length_duplicated_from duplicated_from_nth)
  then show ?thesis by (simp add: filter_map comp_def)
qed

lemma drop_duplicates_from_props:
  "set (map fst (filter (\<lambda>(r, d). \<not> d) (zip rs (duplicated_from seen rs)))) = set rs - set seen
   \<and> (distinct (map fst (filter (\<lambda>(r, d). \<not> d) (zip rs (duplicated_from seen rs)))))
   \<and> subseq (map fst (filter (\<lambda>(r, d). \<not> d) (zip rs (duplicated_from seen rs)))) rs"
proof (induction rs arbitrary: seen)
  case Nil
  then show ?case by simp
next
  case (Cons r rs)
  from Cons.IH [of "r # seen"] show ?case
    unfolding drop_duplicates_from_Cons by (cases "r \<in> set seen") auto
qed

lemma drop_duplicates_props:
  "set (drop_duplicates rs) = set rs \<and> distinct (drop_duplicates rs)
   \<and> subseq (drop_duplicates rs) rs"
  using drop_duplicates_from_props [of rs "[]"] by (simp add: drop_duplicates_def duplicated_def)

lemma length_drop_duplicates:
  "length (drop_duplicates rs)
     = length rs - length (filter (\<lambda>k. rs ! k \<in> set (take k rs)) [0..<length rs])"
proof -
  have "length (filter (\<lambda>k. rs ! k \<notin> set (take k rs)) [0..<length rs])
        + length (filter (\<lambda>k. rs ! k \<in> set (take k rs)) [0..<length rs]) = length rs"
    using sum_length_filter_compl [of "\<lambda>k. rs ! k \<notin> set (take k rs)" "[0..<length rs]"]
    by simp
  then show ?thesis by (simp add: drop_duplicates_first_occurrences)
qed


text \<open>
  Claim C10, as the code has it. The rows compared are those of the expanded table of
  line 40 (the caller's columns without \<^verbatim>\<open>categories\<close>, then the integer columns), one
  per input row. The returned rows are the first occurrences among them, in order: a
  row is dropped exactly when it equals an earlier expanded row on all columns. So the
  output has as many rows as the input minus the number of such rows, one less when
  there is exactly one.
\<close>

theorem clean_data_drops_duplicates:
  assumes "expand_categories t = Inr (names, ints)"
  shows "\<exists>out E. snd (clean_data t) = Inr out
    \<and> E = map (\<lambda>(r, s). r @ s) (zip (rows (drop_columns ''categories'' t)) (map (map Num) ints))
    \<and> length E = length (rows t)
    \<and> rows out = map ((!) E) (filter (\<lambda>k. E ! k \<notin> set (take k E)) [0..<length E])
    \<and> subseq (rows out) E \<and> distinct (rows out) \<and> set (rows out) = set E
    \<and> length (rows out)
         = length (rows t) - length (filter (\<lambda>k. E ! k \<in> set (take k E)) [0..<length E])
    \<and> (length (filter (\<lambda>k. E ! k \<in> set (take k E)) [0..<length E]) = 1 \<longrightarrow>
         length (rows out) = length (rows t) - 1)"
proof -
  let ?E = "map (\<lambda>(r, s). r @ s) (zip (rows (drop_columns ''categories'' t)) (map (map Num) ints))"
  let ?out = "\<lparr>columns = columns (drop_columns ''categories'' t) @ names,
               dtypes = dtypes (drop_columns ''categories'' t) @ replicate (length names) Int64,
               rows = drop_duplicates ?E\<rparr>"
  have s: "snd (clean_data t) = Inr ?out"
    using clean_data_Inr [OF assms] by simp
  have n: "length ?E = length (rows t)"
    using expand_categories_Inr [OF assms] by (simp add: length_rows_drop_columns)
  have r: "rows ?out = map ((!) ?E) (filter (\<lambda>k. ?E ! k \<notin> set (take k ?E)) [0..<length ?E])"
    using drop_duplicates_first_occurrences [of ?E] by simp
  have p: "subseq (rows ?out) ?E \<and> distinct (rows ?out) \<and> set (rows ?out) = set ?E"
    using drop_duplicates_props [of ?E] by simp
  have l: "length (rows ?out)
         = length (rows t) - length (filter (\<lambda>k. ?E ! k \<in> set (take k ?E)) [0..<length ?E])"
    using length_drop_duplicates [of ?E] n by simp
  from s n r p l show ?thesis by (intro exI [of _ ?out] exI [of _ ?E]) simp
qed

theorem clean_data_drops_duplicates_witness:
  "expand_categories
     \<lparr>columns = [''id'', ''categories''], dtypes = [Int64, Object],
      rows = [[Num 1, Str ''a-1''], [Num 2, Str ''a-0''], [Num 1, Str ''a-1'']]\<rparr>
     = Inr ([''a''], [[1], [0], [1]])
   \<and> snd (clean_data
       \<lparr>columns = [''id'', ''categories''], dtypes = [Int64, Object],
        rows = [[Num 1, Str ''a-1''], [Num 2, Str ''a-0''], [Num 1, Str ''a-1'']]\<rparr>)
     = Inr \<lparr>columns = [''id'', ''a''], dtypes = [Int64, Int64], rows = [[Num 1, Num 1], [Num 2, Num 0]]\<rparr>
   \<and> distinct [[Num 1, Num 1], [Num 2, Num 0 :: cell]]
   \<and> length [[Num 1, Num 1], [Num 2, Num 0 :: cell]] = 3 - 1"
proof -
  let ?t = "\<lparr>columns = [''id'', ''categories''], dtypes = [Int64, Object],
      rows = [[Num 1, Str ''a-1''], [Num 2, Str ''a-0''], [Num 1, Str ''a-1'']]\<rparr>"
  have e: "expand_categories ?t = Inr ([''a''], [[1], [0], [1]])" by code_simp
  have c: "snd (clean_data ?t)
     = Inr \<lparr>columns = [''id'', ''a''], dtypes = [Int64, Int64], rows = [[Num 1, Num 1], [Num 2, Num 0]]\<rparr>"
    by code_simp
  from clean_data_drops_duplicates [OF e] obtain out where
    "snd (clean_data ?t) = Inr out" and "distinct (rows out)"
    by blast
  with c have "distinct [[Num 1, Num 1], [Num 2, Num 0 :: cell]]" by simp
  with e c show ?thesis by simp
qed

text \<open>
  Claim C10 as stated fails: the input below has exactly one exact duplicate row (the
  second), but its third row, which differs from the first in the text \<^verbatim>\<open>a-01\<close>, expands
  to the same row, so one row is returned and not two.
\<close>

theorem clean_data_duplicates_after_expansion:
  "length (filter id (duplicated (rows
       \<lparr>columns = [''id'', ''categories''], dtypes = [Int64, Object],
        rows = [[Num 1, Str ''a-1''], [Num 1, Str ''a-1''], [Num 1, Str ''a-01'']]\<rparr>))) = 1
   \<and> snd (clean_data
       \<lparr>columns = [''id'', ''categories''], dtypes = [Int64, Object],
        rows = [[Num 1, Str ''a-1''], [Num 1, Str ''a-1''], [Num 1, Str ''a-01'']]\<rparr>)
     = Inr \<lparr>columns = [''id'', ''a''], dtypes = [Int64, Int64], rows = [[Num 1, Num 1]]\<rparr>
   \<and> length [[Num 1, Num 1 :: cell]] \<noteq> 3 - 1"
  by code_simp

section \<open>Category names and values\<close>

lemma split_on_dropWhile:
  "split_on sep s =
     takeWhile (\<lambda>c. c \<noteq> sep) s
       # (case dropWhile (\<lambda>c. c \<noteq> sep) s of [] \<Rightarrow> [] | _ # s' \<Rightarrow> split_on sep s')"
proof (induction s)
  case Nil
  then show ?case by simp
next
  case (Cons c cs)
  then show ?case by (cases "split_on sep cs") (auto simp: split_on_not_Nil)
qed

lemma name_of_Some: "name_of (Some s) = Inr (takeWhile (\<lambda>c. c \<noteq> CHR ''-'') s)"
  unfolding name_of_def by (subst split_on_dropWhile) simp

lemma suffix_of_Some:
  "suffix_of (Some s) =
     (case dropWhile (\<lambda>c. c \<noteq> CHR ''-'') s of
        [] \<Rightarrow> Inl IndexError
      | _ # s' \<Rightarrow> Inr (takeWhile (\<lambda>c. c \<noteq> CHR ''-'') s'))"
proof (cases "dropWhile (\<lambda>c. c \<noteq> CHR ''-'') s")
  case Nil
  have "split_on CHR ''-'' s = [takeWhile (\<lambda>c. c \<noteq> CHR ''-'') s]"
    by (subst split_on_dropWhile) (simp only: Nil list.case)
  then show ?thesis unfolding suffix_of_def Nil by simp
next
  case (Cons c s')
  have "split_on CHR ''-'' s
      = takeWhile (\<lambda>c. c \<noteq> CHR ''-'') s # split_on CHR ''-'' s'"
    by (subst split_on_dropWhile) (simp only: Cons list.case)
  also have "split_on CHR ''-'' s'
      = takeWhile (\<lambda>c. c \<noteq> CHR ''-'') s'
          # (case dropWhile (\<lambda>c. c \<noteq> CHR ''-'') s' of [] \<Rightarrow> [] | _ # s'' \<Rightarrow> split_on CHR ''-'' s'')"
    by (rule split_on_dropWhile)
  finally show ?thesis unfolding suffix_of_def Cons by simp
qed

lemma suffix_of_IndexError_iff:
  "suffix_of (Some s) = Inl IndexError \<longleftrightarrow> CHR ''-'' \<notin> set s"
proof (cases "dropWhile (\<lambda>c. c \<noteq> CHR ''-'') s")
  case Nil
  then have "CHR ''-'' \<notin> set s" by auto
  then show ?thesis unfolding suffix_of_Some Nil by simp
next
  case (Cons c s')
  have "dropWhile (\<lambda>c. c \<noteq> CHR ''-'') s \<noteq> []" unfolding Cons by simp
  then have "CHR ''-'' \<in> set s" by (auto simp: dropWhile_eq_Nil_conv)
  then show ?thesis unfolding suffix_of_Some Cons by simp
qed

lemma suffix_of_Inr_shape:
  assumes "suffix_of (Some s) = Inr q"
  shows "\<exists>p rest. s = p @ CHR ''-'' # q @ rest \<and> CHR ''-'' \<notin> set p \<and> CHR ''-'' \<notin> set q
           \<and> (rest = [] \<or> hd rest = CHR ''-'')"
proof (cases "dropWhile (\<lambda>c. c \<noteq> CHR ''-'') s")
  case Nil
  from assms show ?thesis unfolding suffix_of_Some Nil by simp
next
  case (Cons c s')
  from assms have q: "q = takeWhile (\<lambda>c. c \<noteq> CHR ''-'') s'"
    unfolding suffix_of_Some Cons by simp
  have "dropWhile (\<lambda>c. c \<noteq> CHR ''-'') s \<noteq> []" unfolding Cons by simp
  from hd_dropWhile [OF this] have c: "c = CHR ''-''" unfolding Cons by simp
  let ?p = "takeWhile (\<lambda>c. c \<noteq> CHR ''-'') s"
  let ?rest = "dropWhile (\<lambda>c. c \<noteq> CHR ''-'') s'"
  have "s = ?p @ dropWhile (\<lambda>c. c \<noteq> CHR ''-'') s" by simp
  also have "\<dots> = ?p @ CHR ''-'' # q @ ?rest" unfolding Cons c q by simp
  finally have "s = ?p @ CHR ''-'' # q @ ?rest" .
  moreover have "CHR ''-'' \<notin> set ?p" by (auto dest: set_takeWhileD)
  moreover have "CHR ''-'' \<notin> set q" unfolding q by (auto dest: set_takeWhileD)
  moreover have "?rest = [] \<or> hd ?rest = CHR ''-''"
    using hd_dropWhile [of "\<lambda>c. c \<noteq> CHR ''-''" s'] by auto
  ultimately show ?thesis by blast
qed

lemma suffix_of_cases:
  "suffix_of v = Inl AttributeError \<and> v = None
   \<or> (\<exists>s. v = Some s \<and> suffix_of v = Inl IndexError)
   \<or> (\<exists>s q. v = Some s \<and> suffix_of v = Inr q)"
  by (cases v) (auto simp: suffix_of_def split: list.splits)

lemma to_int64_cases:
  "to_int64 q = Inl (ValueError InvalidLiteral) \<and> py_int q = None
   \<or> (\<exists>n. to_int64 q = Inl OverflowError \<and> py_int q = Some n \<and> \<not> (- (2 ^ 63) \<le> n \<and> n < 2 ^ 63))
   \<or> (\<exists>n. to_int64 q = Inr n \<and> py_int q = Some n \<and> - (2 ^ 63) \<le> n \<and> n < 2 ^ 63)"
  by (cases "py_int q") (auto simp: to_int64_def)

lemma length_pieces_le_width:
  "c \<in> set col \<Longrightarrow> length (pieces c) \<le> expand_width col"
  by (induction col) (auto simp: expand_width_def)

lemma length_pieces_pos: "0 < length (pieces c)"
  by (cases c) (simp_all add: pieces_def split_on_not_Nil)

lemma split_expand_rectangular:
  "\<forall>row\<in>set (split_expand col). length row = expand_width col"
  by (auto simp: split_expand_def Let_def dest: length_pieces_le_width)

lemma split_expand_nth:
  "k < length col \<Longrightarrow>
     split_expand col ! k =
       (if is_Str (col ! k)
        then pieces (col ! k) @ replicate (expand_width col - length (pieces (col ! k))) None
        else replicate (expand_width col) None)"
  by (simp add: split_expand_def Let_def)

lemma None_in_split_expand_row:
  assumes "c \<in> set col"
  shows "None \<in> set (if is_Str c
        then pieces c @ replicate (expand_width col - length (pieces c)) None
        else replicate (expand_width col) None)
     \<longleftrightarrow> \<not> is_Str c \<or> length (pieces c) < expand_width col"
proof -
  have w: "0 < expand_width col"
    using length_pieces_le_width [OF assms] length_pieces_pos [of c] by linarith
  show ?thesis
  proof (cases c)
    case (Str s)
    then show ?thesis by (auto simp: is_Str_def pieces_def)
  next
    case (Num n)
    then show ?thesis using w by (simp add: is_Str_def)
  next
    case NaN
    then show ?thesis using w by (simp add: is_Str_def)
  qed
qed

lemma list_all2_set1:
  "list_all2 P xs ys \<Longrightarrow> x \<in> set xs \<Longrightarrow> \<exists>y\<in>set ys. P x y"
  by (induction rule: list_all2_induct) auto

lemma list_all2_rectangular:
  "list_all2 (list_all2 P) m n \<Longrightarrow> \<forall>x\<in>set m. length x = w \<Longrightarrow> \<forall>y\<in>set n. length y = w"
  by (induction rule: list_all2_induct) (auto dest: list_all2_lengthD)


lemma list_all2_set2:
  "list_all2 P xs ys \<Longrightarrow> y \<in> set ys \<Longrightarrow> \<exists>x\<in>set xs. P x y"
  by (induction rule: list_all2_induct) auto

lemma bind_err_Inl_iff:
  "bind_err m f = Inl e \<longleftrightarrow> m = Inl e \<or> (\<exists>x. m = Inr x \<and> f x = Inl e)"
  by (cases m) (auto simp: bind_err_def)

lemma iloc0_nonempty: "xs \<noteq> [] \<Longrightarrow> iloc0 xs = Inr (hd xs)"
  by (cases xs) (simp_all add: iloc0_def)

lemma name_of_Inl: "name_of v = Inl e \<Longrightarrow> v = None \<and> e = AttributeError"
  by (cases v) (simp_all add: name_of_Some, simp add: name_of_def)

lemma expand_categories_unfold:
  assumes "categories_str t = Inr col" and "col \<noteq> []"
  shows "expand_categories t =
     bind_err (traverse name_of (hd (split_expand col))) (\<lambda>names.
       bind_err (map_cells suffix_of (split_expand col)) (\<lambda>suffixes.
         bind_err (map_cells to_int64 suffixes) (\<lambda>ints. Inr (names, ints))))"
proof -
  have "split_expand col \<noteq> []" using assms(2) length_split_expand [of col] by auto
  then show ?thesis
    by (simp add: expand_categories_def assms(1) bind_err_def iloc0_nonempty Let_def)
qed

lemma expand_categories_Inr_detail:
  assumes "expand_categories t = Inr (names, ints)"
  shows "\<exists>col suffixes. categories_str t = Inr col \<and> col \<noteq> []
     \<and> traverse name_of (hd (split_expand col)) = Inr names
     \<and> map_cells suffix_of (split_expand col) = Inr suffixes
     \<and> map_cells to_int64 suffixes = Inr ints"
proof -
  from assms obtain col where c: "categories_str t = Inr col"
    unfolding expand_categories_def bind_err_Inr_iff by blast
  from expand_categories_Inr [OF assms] categories_str_Inr [OF c] have ne: "col \<noteq> []" by auto
  from assms show ?thesis
    unfolding expand_categories_unfold [OF c ne] bind_err_Inr_iff using c ne by auto
qed

lemma expand_categories_Inl_detail:
  assumes "categories_str t = Inr col" and "col \<noteq> []" and "expand_categories t = Inl e"
  shows "(e = AttributeError \<and> (\<exists>row\<in>set (split_expand col). None \<in> set row))
     \<or> (\<exists>row\<in>set (split_expand col). \<exists>v\<in>set row. suffix_of v = Inl e)
     \<or> (\<exists>row\<in>set (split_expand col). \<exists>v\<in>set row. \<exists>q. suffix_of v = Inr q \<and> to_int64 q = Inl e)"
proof -
  let ?E = "split_expand col"
  have ne: "?E \<noteq> []" using assms(2) length_split_expand [of col] by auto
  note rect = split_expand_rectangular [of col]
  from assms(3) consider
      (names) "traverse name_of (hd ?E) = Inl e"
    | (suffixes) "map_cells suffix_of ?E = Inl e"
    | (ints) suf where "map_cells suffix_of ?E = Inr suf" "map_cells to_int64 suf = Inl e"
    unfolding expand_categories_unfold [OF assms(1,2)] bind_err_Inl_iff by auto
  then show ?thesis
  proof cases
    case names
    then obtain v where "v \<in> set (hd ?E)" "name_of v = Inl e"
      using traverse_Inl_elem by blast
    moreover from this name_of_Inl have "v = None" "e = AttributeError" by auto
    moreover have "hd ?E \<in> set ?E" using ne by simp
    ultimately show ?thesis by blast
  next
    case suffixes
    from map_cells_Inl_elem [OF rect this] show ?thesis by blast
  next
    case ints
    from map_cells_Inr_all2 [OF ints(1)]
    have a: "list_all2 (list_all2 (\<lambda>x y. suffix_of x = Inr y)) ?E suf" .
    from list_all2_rectangular [OF a rect]
    have "\<forall>y\<in>set suf. length y = expand_width col" .
    from map_cells_Inl_elem [OF this ints(2)]
    obtain srow q where sq: "srow \<in> set suf" "q \<in> set srow" "to_int64 q = Inl e" by blast
    from list_all2_set2 [OF a sq(1)] obtain row where
      row: "row \<in> set ?E" "list_all2 (\<lambda>x y. suffix_of x = Inr y) row srow" by blast
    from list_all2_set2 [OF row(2) sq(2)] obtain v where "v \<in> set row" "suffix_of v = Inr q"
      by blast
    with row(1) sq(3) show ?thesis by blast
  qed
qed

lemma expand_categories_success_iff:
  assumes "categories_str t = Inr col" and "col \<noteq> []"
  shows "(\<exists>names ints. expand_categories t = Inr (names, ints)) \<longleftrightarrow>
     (\<forall>row\<in>set (split_expand col). \<forall>v\<in>set row. \<exists>q n. suffix_of v = Inr q \<and> to_int64 q = Inr n)"
proof
  let ?E = "split_expand col"
  assume "\<exists>names ints. expand_categories t = Inr (names, ints)"
  then obtain names ints where e: "expand_categories t = Inr (names, ints)" by blast
  from expand_categories_Inr_detail [OF e] assms(1) obtain suf where
    s: "map_cells suffix_of ?E = Inr suf" and i: "map_cells to_int64 suf = Inr ints"
    by auto
  note a = map_cells_Inr_all2 [OF s] and b = map_cells_Inr_all2 [OF i]
  show "\<forall>row\<in>set ?E. \<forall>v\<in>set row. \<exists>q n. suffix_of v = Inr q \<and> to_int64 q = Inr n"
  proof (intro ballI)
    fix row v assume rv: "row \<in> set ?E" "v \<in> set row"
    from list_all2_set1 [OF a rv(1)] obtain srow where
      sr: "srow \<in> set suf" "list_all2 (\<lambda>x y. suffix_of x = Inr y) row srow" by blast
    from list_all2_set1 [OF sr(2) rv(2)] obtain q where q: "q \<in> set srow" "suffix_of v = Inr q"
      by blast
    from list_all2_set1 [OF b sr(1)] obtain irow where
      ir: "list_all2 (\<lambda>x y. to_int64 x = Inr y) srow irow" by blast
    from list_all2_set1 [OF ir q(1)] obtain n where "to_int64 q = Inr n" by blast
    with q(2) show "\<exists>q n. suffix_of v = Inr q \<and> to_int64 q = Inr n" by blast
  qed
next
  let ?E = "split_expand col"
  assume ok: "\<forall>row\<in>set ?E. \<forall>v\<in>set row. \<exists>q n. suffix_of v = Inr q \<and> to_int64 q = Inr n"
  show "\<exists>names ints. expand_categories t = Inr (names, ints)"
  proof (cases "expand_categories t")
    case (Inr p)
    then show ?thesis by (cases p) auto
  next
    case (Inl e)
    have none: "suffix_of None = Inl AttributeError" by (simp add: suffix_of_def)
    from expand_categories_Inl_detail [OF assms Inl] consider
        (missing) row where "row \<in> set ?E" "None \<in> set row"
      | (suffix) row v where "row \<in> set ?E" "v \<in> set row" "suffix_of v = Inl e"
      | (int) row v q where "row \<in> set ?E" "v \<in> set row" "suffix_of v = Inr q"
          "to_int64 q = Inl e"
      by blast
    then have False
    proof cases
      case missing
      with ok obtain q where "suffix_of None = Inr q" by blast
      with none show False by simp
    next
      case suffix
      with ok obtain q where "suffix_of v = Inr q" by blast
      with suffix(3) show False by simp
    next
      case int
      with ok obtain q' n where "suffix_of v = Inr q'" "to_int64 q' = Inr n" by blast
      with int(3,4) show False by simp
    qed
    then show ?thesis ..
  qed
qed

lemma traverse_Inr_unique:
  "traverse f xs = Inr ys \<Longrightarrow> (\<And>x. x \<in> set xs \<Longrightarrow> f x = Inr (g x)) \<Longrightarrow> ys = map g xs"
  using traverse_all_Inr [of xs f g] by simp

lemma hd_split_expand:
  assumes "col \<noteq> []"
  shows "hd (split_expand col) =
       (if is_Str (hd col)
        then pieces (hd col) @ replicate (expand_width col - length (pieces (hd col))) None
        else replicate (expand_width col) None)"
  using assms by (cases col) (simp_all add: split_expand_def Let_def)

lemma first_row_names:
  assumes "col \<noteq> []" and "traverse name_of (hd (split_expand col)) = Inr names"
  shows "\<exists>s0. hd col = Str s0
     \<and> names = map (takeWhile (\<lambda>c. c \<noteq> CHR ''-'')) (split_on CHR '';'' s0)
     \<and> length names = expand_width col"
proof -
  let ?c = "hd col"
  have mem: "?c \<in> set col" using assms(1) by simp
  have "\<forall>v\<in>set (hd (split_expand col)). \<exists>y. name_of v = Inr y"
    using assms(2) traverse_succeeds_iff [of name_of "hd (split_expand col)"] by blast
  then have "None \<notin> set (hd (split_expand col))"
    by (auto simp: name_of_def)
  then have "is_Str ?c \<and> \<not> length (pieces ?c) < expand_width col"
    unfolding hd_split_expand [OF assms(1)] using None_in_split_expand_row [OF mem] by blast
  moreover from this length_pieces_le_width [OF mem]
  have len: "length (pieces ?c) = expand_width col" by simp
  ultimately obtain s0 where s0: "?c = Str s0" by (cases ?c) (auto simp: is_Str_def)
  have row: "hd (split_expand col) = map Some (split_on CHR '';'' s0)"
    unfolding hd_split_expand [OF assms(1)] using len s0 by (simp add: is_Str_def pieces_def)
  have "names = map (\<lambda>v. case v of Some s \<Rightarrow> takeWhile (\<lambda>c. c \<noteq> CHR ''-'') s | None \<Rightarrow> [])
                  (map Some (split_on CHR '';'' s0))"
    using assms(2) unfolding row
    by (rule traverse_Inr_unique) (auto simp: name_of_Some)
  then have n: "names = map (takeWhile (\<lambda>c. c \<noteq> CHR ''-'')) (split_on CHR '';'' s0)"
    by (simp add: comp_def)
  moreover have "length names = expand_width col"
    using len s0 n by (simp add: pieces_def)
  ultimately show ?thesis using s0 by blast
qed

lemma length_drop_columns_row:
  "r \<in> set (rows (drop_columns name df)) \<Longrightarrow> length r = length (columns (drop_columns name df))"
  by (auto simp: drop_columns_def Let_def)

text \<open>
  Claim C8. When \<^verbatim>\<open>clean_data\<close> returns a table, the first row's \<^verbatim>\<open>categories\<close> value is
  a text \<open>s0\<close>, and the columns of the result are the input's columns without
  \<^verbatim>\<open>categories\<close> followed, for each \<^verbatim>\<open>;\<close>-separated segment of \<open>s0\<close> in order, by the part
  of the segment before its first \<^verbatim>\<open>-\<close>. No other row contributes to the names, and
  every returned row has one cell per column.
\<close>

theorem clean_data_column_names:
  assumes "snd (clean_data t) = Inr out" and "positions ''categories'' (columns t) = [i]"
  shows "\<exists>s0. rows t \<noteq> [] \<and> hd (rows t) ! i = Str s0
    \<and> columns out = filter (\<lambda>c. c \<noteq> ''categories'') (columns t)
                      @ map (takeWhile (\<lambda>c. c \<noteq> CHR ''-'')) (split_on CHR '';'' s0)
    \<and> (\<forall>r\<in>set (rows out). length r = length (columns out))"
proof -
  from assms(1) obtain names ints where e: "expand_categories t = Inr (names, ints)"
    by (cases "expand_categories t") (auto simp: clean_data_Inl)
  from expand_categories_Inr_detail [OF e] obtain col suf where
    c: "categories_str t = Inr col" and ne: "col \<noteq> []"
    and nm: "traverse name_of (hd (split_expand col)) = Inr names"
    and sf: "map_cells suffix_of (split_expand col) = Inr suf"
    and it: "map_cells to_int64 suf = Inr ints"
    by blast
  from categories_str_Inr [OF c] assms(2) have col: "col = map (\<lambda>r. r ! i) (rows t)" by auto
  with ne have rne: "rows t \<noteq> []" by auto
  from first_row_names [OF ne nm] obtain s0 where s0: "hd col = Str s0"
    and names: "names = map (takeWhile (\<lambda>c. c \<noteq> CHR ''-'')) (split_on CHR '';'' s0)"
    and ln: "length names = expand_width col"
    by blast
  have h: "hd (rows t) ! i = Str s0" using s0 col rne by (simp add: hd_map)
  let ?d = "drop_columns ''categories'' t"
  let ?E = "map (\<lambda>(r, s). r @ s) (zip (rows ?d) (map (map Num) ints))"
  have out: "out = \<lparr>columns = columns ?d @ names,
      dtypes = dtypes ?d @ replicate (length names) Int64, rows = drop_duplicates ?E\<rparr>"
    using clean_data_Inr [OF e] assms(1) by simp
  have cols: "columns out = filter (\<lambda>c. c \<noteq> ''categories'') (columns t)
                      @ map (takeWhile (\<lambda>c. c \<noteq> CHR ''-'')) (split_on CHR '';'' s0)"
    using out names by (simp add: columns_drop_columns)
  have w: "\<forall>y\<in>set ints. length y = expand_width col"
    using list_all2_rectangular [OF map_cells_Inr_all2 [OF it]
        list_all2_rectangular [OF map_cells_Inr_all2 [OF sf] split_expand_rectangular [of col]]] .
  have "\<forall>r\<in>set ?E. length r = length (columns out)"
  proof
    fix r assume "r \<in> set ?E"
    then obtain a b where ab: "r = a @ b" "(a, b) \<in> set (zip (rows ?d) (map (map Num) ints))"
      by auto
    from ab(2) have "a \<in> set (rows ?d)" "b \<in> set (map (map Num) ints)"
      by (auto dest: set_zip_leftD set_zip_rightD)
    note ab(1) this
    with w ln length_drop_columns_row [of a "''categories''" t] out
    show "length r = length (columns out)" by auto
  qed
  moreover have "set (rows out) = set ?E" using out drop_duplicates_props [of ?E] by simp
  ultimately have "\<forall>r\<in>set (rows out). length r = length (columns out)" by simp
  with rne h cols show ?thesis by blast
qed

theorem clean_data_column_names_witness:
  "snd (clean_data
     \<lparr>columns = [''id'', ''categories''], dtypes = [Int64, Object],
      rows = [[Num 1, Str ''a-1;b-0''], [Num 2, Str ''c-1;d-0'']]\<rparr>)
     = Inr \<lparr>columns = [''id'', ''a'', ''b''], dtypes = [Int64, Int64, Int64],
            rows = [[Num 1, Num 1, Num 0], [Num 2, Num 1, Num 0]]\<rparr>
   \<and> positions ''categories'' [''id'', ''categories''] = [1]
   \<and> [''id'', ''a'', ''b'']
     = filter (\<lambda>c. c \<noteq> ''categories'') [''id'', ''categories'']
       @ map (takeWhile (\<lambda>c. c \<noteq> CHR ''-'')) (split_on CHR '';'' ''a-1;b-0'')"
proof -
  let ?t = "\<lparr>columns = [''id'', ''categories''], dtypes = [Int64, Object],
      rows = [[Num 1, Str ''a-1;b-0''], [Num 2, Str ''c-1;d-0'']]\<rparr>"
  let ?out = "\<lparr>columns = [''id'', ''a'', ''b''], dtypes = [Int64, Int64, Int64],
            rows = [[Num 1, Num 1, Num 0], [Num 2, Num 1, Num 0]]\<rparr>"
  have c: "snd (clean_data ?t) = Inr ?out" by code_simp
  have p: "positions ''categories'' (columns ?t) = [1]" by code_simp
  from clean_data_column_names [OF c p] obtain s0 where
    h: "hd (rows ?t) ! 1 = Str s0" and
    n: "columns ?out = filter (\<lambda>c. c \<noteq> ''categories'') (columns ?t)
                      @ map (takeWhile (\<lambda>c. c \<noteq> CHR ''-'')) (split_on CHR '';'' s0)"
    by blast
  from h have s0: "s0 = ''a-1;b-0''" by simp
  from n have "[''id'', ''a'', ''b'']
     = filter (\<lambda>c. c \<noteq> ''categories'') [''id'', ''categories'']
       @ map (takeWhile (\<lambda>c. c \<noteq> CHR ''-'')) (split_on CHR '';'' ''a-1;b-0'')"
    unfolding s0 table.simps .
  moreover have "positions ''categories'' [''id'', ''categories''] = [1]"
    using p unfolding table.simps .
  ultimately show ?thesis using c by blast
qed







lemma suffix_of_None: "suffix_of None = Inl AttributeError"
  by (simp add: suffix_of_def)

lemma cell_parses_iff:
  "(\<exists>q n. suffix_of v = Inr q \<and> to_int64 q = Inr n) \<longleftrightarrow>
   (\<exists>s q n. v = Some s \<and> CHR ''-'' \<in> set s \<and> suffix_of (Some s) = Inr q
      \<and> py_int q = Some n \<and> - (2 ^ 63) \<le> n \<and> n < 2 ^ 63)"
proof
  assume "\<exists>q n. suffix_of v = Inr q \<and> to_int64 q = Inr n"
  then obtain q n where q: "suffix_of v = Inr q" and n: "to_int64 q = Inr n" by blast
  from q obtain s where s: "v = Some s" by (cases v) (simp_all add: suffix_of_None)
  from q s have "suffix_of (Some s) \<noteq> Inl IndexError" by simp
  then have d: "CHR ''-'' \<in> set s" using suffix_of_IndexError_iff [of s] by blast
  from n to_int64_cases [of q] have "py_int q = Some n \<and> - (2 ^ 63) \<le> n \<and> n < 2 ^ 63"
    by auto
  with q s d show "\<exists>s q n. v = Some s \<and> CHR ''-'' \<in> set s \<and> suffix_of (Some s) = Inr q
      \<and> py_int q = Some n \<and> - (2 ^ 63) \<le> n \<and> n < 2 ^ 63"
    by blast
next
  assume "\<exists>s q n. v = Some s \<and> CHR ''-'' \<in> set s \<and> suffix_of (Some s) = Inr q
      \<and> py_int q = Some n \<and> - (2 ^ 63) \<le> n \<and> n < 2 ^ 63"
  then obtain s q n where "v = Some s" "suffix_of (Some s) = Inr q"
    "py_int q = Some n" "- (2 ^ 63) \<le> n" "n < 2 ^ 63" by blast
  moreover from this have "to_int64 q = Inr n" by (simp add: to_int64_def)
  ultimately show "\<exists>q n. suffix_of v = Inr q \<and> to_int64 q = Inr n" by blast
qed

lemma clean_data_succeeds_iff:
  "(\<exists>out. snd (clean_data t) = Inr out) \<longleftrightarrow> (\<exists>names ints. expand_categories t = Inr (names, ints))"
proof (cases "expand_categories t")
  case (Inl e)
  then show ?thesis by (simp add: clean_data_Inl)
next
  case (Inr p)
  obtain names ints where "p = (names, ints)" by (cases p)
  with Inr show ?thesis by (simp add: clean_data_Inr)
qed

lemma clean_data_fails:
  assumes "snd (clean_data t) = Inl e"
  shows "expand_categories t = Inl e"
proof (cases "expand_categories t")
  case (Inl e')
  with assms show ?thesis by (simp add: clean_data_Inl)
next
  case (Inr p)
  obtain names ints where "p = (names, ints)" by (cases p)
  with Inr assms show ?thesis by (simp add: clean_data_Inr)
qed

lemma stored_values:
  assumes "expand_categories t = Inr (names, ints)" and "categories_str t = Inr col"
  shows "list_all2 (list_all2 (\<lambda>v n. \<exists>s q. v = Some s \<and> suffix_of (Some s) = Inr q
            \<and> py_int q = Some n)) (split_expand col) ints"
proof -
  from expand_categories_Inr_detail [OF assms(1)] assms(2) obtain suf where
    s: "map_cells suffix_of (split_expand col) = Inr suf" and i: "map_cells to_int64 suf = Inr ints"
    by auto
  let ?P = "\<lambda>v q. suffix_of v = Inr q" and ?Q = "\<lambda>q n. to_int64 q = Inr n"
  have "(list_all2 (list_all2 ?P) OO list_all2 (list_all2 ?Q)) (split_expand col) ints"
    using map_cells_Inr_all2 [OF s] map_cells_Inr_all2 [OF i] by blast
  then have outer: "list_all2 (list_all2 (?P OO ?Q)) (split_expand col) ints"
    by (simp add: list.rel_compp)
  have "(?P OO ?Q) v n \<Longrightarrow> \<exists>s q. v = Some s \<and> suffix_of (Some s) = Inr q \<and> py_int q = Some n"
    for v n
  proof -
    assume "(?P OO ?Q) v n"
    then obtain q where q: "suffix_of v = Inr q" "to_int64 q = Inr n" by blast
    from q(1) obtain s where "v = Some s" by (cases v) (simp_all add: suffix_of_None)
    moreover from q(2) to_int64_cases [of q] have "py_int q = Some n" by auto
    ultimately show ?thesis using q(1) by blast
  qed
  note cell = this
  have inner: "list_all2 (\<lambda>v n. \<exists>s q. v = Some s \<and> suffix_of (Some s) = Inr q \<and> py_int q = Some n) xs ys"
    if "list_all2 (?P OO ?Q) xs ys" for xs ys
    using that by (rule list_all2_mono) (rule cell)
  from outer show ?thesis by (rule list_all2_mono) (rule inner)
qed


text \<open>
  Claim C5, as the code has it, for a table with one \<^verbatim>\<open>categories\<close> column that \<^verbatim>\<open>.str\<close>
  accepts and at least one row. A sub-column value is a cell of the expanded frame; it
  is missing when its row is not text or has fewer segments than the widest row. From
  a value, line 37 takes the second \<^verbatim>\<open>-\<close>-separated field: the text between the first
  \<^verbatim>\<open>-\<close> and the next one, or the end. \<^verbatim>\<open>clean_data\<close> returns a table exactly when every
  value is present, has a \<^verbatim>\<open>-\<close>, and has a second field that \<^verbatim>\<open>int\<close> parses to a number
  of the signed 64-bit range; the integer stored for a value is that number. When it
  raises, it is an attribute error with some value missing, an index error with some
  value without \<^verbatim>\<open>-\<close>, a value error with some second field that is no integer literal,
  or an overflow error with some second field outside the 64-bit range.
\<close>

theorem clean_data_parse:
  assumes "categories_str t = Inr col" and "col \<noteq> []"
  shows "((\<exists>out. snd (clean_data t) = Inr out) \<longleftrightarrow>
       (\<forall>row\<in>set (split_expand col). \<forall>v\<in>set row.
          \<exists>s q n. v = Some s \<and> CHR ''-'' \<in> set s \<and> suffix_of (Some s) = Inr q
            \<and> py_int q = Some n \<and> - (2 ^ 63) \<le> n \<and> n < 2 ^ 63))
    \<and> (\<forall>names ints. expand_categories t = Inr (names, ints) \<longrightarrow>
          list_all2 (list_all2 (\<lambda>v n. \<exists>s q. v = Some s \<and> suffix_of (Some s) = Inr q
            \<and> py_int q = Some n)) (split_expand col) ints)
    \<and> (\<forall>e. snd (clean_data t) = Inl e \<longrightarrow>
          e = AttributeError \<and> (\<exists>row\<in>set (split_expand col). None \<in> set row)
        \<or> e = IndexError
            \<and> (\<exists>row\<in>set (split_expand col). \<exists>s. Some s \<in> set row \<and> CHR ''-'' \<notin> set s)
        \<or> e = ValueError InvalidLiteral
            \<and> (\<exists>row\<in>set (split_expand col). \<exists>s q. Some s \<in> set row
                  \<and> suffix_of (Some s) = Inr q \<and> py_int q = None)
        \<or> e = OverflowError
            \<and> (\<exists>row\<in>set (split_expand col). \<exists>s q n. Some s \<in> set row
                  \<and> suffix_of (Some s) = Inr q \<and> py_int q = Some n
                  \<and> \<not> (- (2 ^ 63) \<le> n \<and> n < 2 ^ 63)))
    \<and> (\<forall>s q. suffix_of (Some s) = Inr q \<longrightarrow>
          (\<exists>p rest. s = p @ CHR ''-'' # q @ rest \<and> CHR ''-'' \<notin> set p \<and> CHR ''-'' \<notin> set q
             \<and> (rest = [] \<or> hd rest = CHR ''-'')))"
proof (intro conjI)
  show "(\<exists>out. snd (clean_data t) = Inr out) \<longleftrightarrow>
       (\<forall>row\<in>set (split_expand col). \<forall>v\<in>set row.
          \<exists>s q n. v = Some s \<and> CHR ''-'' \<in> set s \<and> suffix_of (Some s) = Inr q
            \<and> py_int q = Some n \<and> - (2 ^ 63) \<le> n \<and> n < 2 ^ 63)"
    unfolding clean_data_succeeds_iff expand_categories_success_iff [OF assms] cell_parses_iff ..
next
  show "\<forall>names ints. expand_categories t = Inr (names, ints) \<longrightarrow>
          list_all2 (list_all2 (\<lambda>v n. \<exists>s q. v = Some s \<and> suffix_of (Some s) = Inr q
            \<and> py_int q = Some n)) (split_expand col) ints"
    using stored_values [OF _ assms(1)] by blast
next
  show "\<forall>s q. suffix_of (Some s) = Inr q \<longrightarrow>
          (\<exists>p rest. s = p @ CHR ''-'' # q @ rest \<and> CHR ''-'' \<notin> set p \<and> CHR ''-'' \<notin> set q
             \<and> (rest = [] \<or> hd rest = CHR ''-''))"
    using suffix_of_Inr_shape by blast
next
  let ?E = "split_expand col"
  show "\<forall>e. snd (clean_data t) = Inl e \<longrightarrow>
          e = AttributeError \<and> (\<exists>row\<in>set ?E. None \<in> set row)
        \<or> e = IndexError
            \<and> (\<exists>row\<in>set ?E. \<exists>s. Some s \<in> set row \<and> CHR ''-'' \<notin> set s)
        \<or> e = ValueError InvalidLiteral
            \<and> (\<exists>row\<in>set ?E. \<exists>s q. Some s \<in> set row
                  \<and> suffix_of (Some s) = Inr q \<and> py_int q = None)
        \<or> e = OverflowError
            \<and> (\<exists>row\<in>set ?E. \<exists>s q n. Some s \<in> set row
                  \<and> suffix_of (Some s) = Inr q \<and> py_int q = Some n
                  \<and> \<not> (- (2 ^ 63) \<le> n \<and> n < 2 ^ 63))"
  proof (intro allI impI)
    fix e assume "snd (clean_data t) = Inl e"
    then have f: "expand_categories t = Inl e" by (rule clean_data_fails)
    from expand_categories_Inl_detail [OF assms f] consider
        (missing) row where "e = AttributeError" "row \<in> set ?E" "None \<in> set row"
      | (suffix) row v where "row \<in> set ?E" "v \<in> set row" "suffix_of v = Inl e"
      | (int) row v q where "row \<in> set ?E" "v \<in> set row" "suffix_of v = Inr q"
          "to_int64 q = Inl e"
      by blast
    then show "e = AttributeError \<and> (\<exists>row\<in>set ?E. None \<in> set row)
        \<or> e = IndexError
            \<and> (\<exists>row\<in>set ?E. \<exists>s. Some s \<in> set row \<and> CHR ''-'' \<notin> set s)
        \<or> e = ValueError InvalidLiteral
            \<and> (\<exists>row\<in>set ?E. \<exists>s q. Some s \<in> set row
                  \<and> suffix_of (Some s) = Inr q \<and> py_int q = None)
        \<or> e = OverflowError
            \<and> (\<exists>row\<in>set ?E. \<exists>s q n. Some s \<in> set row
                  \<and> suffix_of (Some s) = Inr q \<and> py_int q = Some n
                  \<and> \<not> (- (2 ^ 63) \<le> n \<and> n < 2 ^ 63))"
    proof cases
      case missing
      then show ?thesis by blast
    next
      case suffix
      from suffix_of_cases [of v] suffix(3) consider
          (none) "v = None" "e = AttributeError"
        | (nodash) s where "v = Some s" "e = IndexError"
        by auto
      then show ?thesis
      proof cases
        case none
        with suffix show ?thesis by blast
      next
        case nodash
        with suffix(3) have "CHR ''-'' \<notin> set s" using suffix_of_IndexError_iff [of s] by simp
        with nodash suffix show ?thesis by blast
      qed
    next
      case int
      from int(3) obtain s where s: "v = Some s" by (cases v) (simp_all add: suffix_of_None)
      from to_int64_cases [of q] int(4) consider
          (literal) "e = ValueError InvalidLiteral" "py_int q = None"
        | (range) n where "e = OverflowError" "py_int q = Some n"
            "\<not> (- (2 ^ 63) \<le> n \<and> n < 2 ^ 63)"
        by auto
      then show ?thesis
      proof cases
        case literal
        with int s show ?thesis by blast
      next
        case range
        with int s show ?thesis by blast
      qed
    qed
  qed
qed


theorem clean_data_parse_witness:
  "categories_str \<lparr>columns = [''id'', ''categories''], dtypes = [Int64, Object],
      rows = [[Num 1, Str ''a-1;b-0'']]\<rparr> = Inr [Str ''a-1;b-0'']
   \<and> [Str ''a-1;b-0''] \<noteq> []
   \<and> snd (clean_data \<lparr>columns = [''id'', ''categories''], dtypes = [Int64, Object],
      rows = [[Num 1, Str ''a-1;b-0'']]\<rparr>)
     = Inr \<lparr>columns = [''id'', ''a'', ''b''], dtypes = [Int64, Int64, Int64],
            rows = [[Num 1, Num 1, Num 0]]\<rparr>
   \<and> (\<exists>s q n. Some ''b-0'' = Some s \<and> CHR ''-'' \<in> set s \<and> suffix_of (Some s) = Inr q
          \<and> py_int q = Some n \<and> - (2 ^ 63) \<le> n \<and> n < 2 ^ 63)"
proof -
  let ?t = "\<lparr>columns = [''id'', ''categories''], dtypes = [Int64, Object],
      rows = [[Num 1, Str ''a-1;b-0'']]\<rparr>"
  have c: "categories_str ?t = Inr [Str ''a-1;b-0'']" by code_simp
  have ne: "[Str ''a-1;b-0''] \<noteq> []" by simp
  have ok: "snd (clean_data ?t)
     = Inr \<lparr>columns = [''id'', ''a'', ''b''], dtypes = [Int64, Int64, Int64],
            rows = [[Num 1, Num 1, Num 0]]\<rparr>" by code_simp
  have E: "split_expand [Str ''a-1;b-0''] = [[Some ''a-1'', Some ''b-0'']]" by code_simp
  from clean_data_parse [OF c ne] ok
  have "\<forall>row\<in>set (split_expand [Str ''a-1;b-0'']). \<forall>v\<in>set row.
          \<exists>s q n. v = Some s \<and> CHR ''-'' \<in> set s \<and> suffix_of (Some s) = Inr q
            \<and> py_int q = Some n \<and> - (2 ^ 63) \<le> n \<and> n < 2 ^ 63"
    by blast
  then have "\<exists>s q n. Some ''b-0'' = Some s \<and> CHR ''-'' \<in> set s \<and> suffix_of (Some s) = Inr q
          \<and> py_int q = Some n \<and> - (2 ^ 63) \<le> n \<and> n < 2 ^ 63"
    unfolding E by simp
  with c ne ok show ?thesis by blast
qed

text \<open>
  Claim C5 as stated fails on the value \<^verbatim>\<open>a-1-x\<close>: it has a separator, and neither the
  text after its first \<^verbatim>\<open>-\<close> (\<^verbatim>\<open>1-x\<close>) nor the text after its last \<^verbatim>\<open>-\<close> (\<^verbatim>\<open>x\<close>) parses as
  an integer, yet \<^verbatim>\<open>clean_data\<close> returns a table, with the value 1.
\<close>

theorem clean_data_second_field:
  "snd (clean_data \<lparr>columns = [''id'', ''categories''], dtypes = [Int64, Object],
      rows = [[Num 1, Str ''a-1-x'']]\<rparr>)
     = Inr \<lparr>columns = [''id'', ''a''], dtypes = [Int64, Int64], rows = [[Num 1, Num 1]]\<rparr>
   \<and> tl (dropWhile (\<lambda>c. c \<noteq> CHR ''-'') ''a-1-x'') = ''1-x''
   \<and> py_int ''1-x'' = None
   \<and> last (split_on CHR ''-'' ''a-1-x'') = ''x''
   \<and> py_int ''x'' = None"
  by code_simp

end
